theory Spec2Isabelle
  imports Complex_Main "HOL-Library.Multiset" "HOL-Library.Sublist" "HOL-Library.AList" "HOL-Library.Product_Lexorder"
begin

section \<open>Python strings\<close>

text \<open>
  A Python \<open>str\<close> is modelled as a list of 8-bit characters, read as the code points
  U+0000 to U+00FF. On this range \<open>str.isspace\<close> (used by \<open>strip\<close> and by the
  regular-expression class \<open>\s\<close>) holds for the twelve characters below, and the class
  \<open>\d\<close> holds for the ten ASCII digits only.
\<close>

definition py_isspace :: "char \<Rightarrow> bool" where
  "py_isspace c \<longleftrightarrow> c \<in> set [CHR 0x09, CHR 0x0A, CHR 0x0B, CHR 0x0C, CHR 0x0D,
       CHR 0x1C, CHR 0x1D, CHR 0x1E, CHR 0x1F, CHR 0x20, CHR 0x85, CHR 0xA0]"

definition py_isdigit :: "char \<Rightarrow> bool" where
  "py_isdigit c \<longleftrightarrow> c \<in> set ''0123456789''"

definition py_strip :: "string \<Rightarrow> string" where
  "py_strip s = rev (dropWhile py_isspace (rev (dropWhile py_isspace s)))"

text \<open>\<open>s.split(sep)\<close> for a one-character separator: always at least one piece.\<close>

fun py_split :: "char \<Rightarrow> string \<Rightarrow> string list" where
  "py_split sep [] = [[]]"
| "py_split sep (c # cs) =
     (if c = sep then [] # py_split sep cs
      else (case py_split sep cs of [] \<Rightarrow> [[c]] | l # ls \<Rightarrow> (c # l) # ls))"

text \<open>\<open>s.replace(old, new)\<close> for a one-character \<open>old\<close>.\<close>

definition py_replace :: "char \<Rightarrow> string \<Rightarrow> string \<Rightarrow> string" where
  "py_replace old new s = concat (map (\<lambda>c. if c = old then new else [c]) s)"

text \<open>\<open>p in s\<close> on strings is the contiguous-substring test.\<close>

definition py_in :: "string \<Rightarrow> string \<Rightarrow> bool" where
  "py_in p s = sublist p s"

text \<open>\<open>str.lower\<close> on U+0000 to U+00FF: the ASCII capitals and the Latin-1 capitals
  U+00C0 to U+00DE (without the multiplication sign U+00D7) move up by 32.\<close>

definition py_lower_char :: "char \<Rightarrow> char" where
  "py_lower_char c =
     (let n = (of_char c :: nat)
      in if (65 \<le> n \<and> n \<le> 90) \<or> (192 \<le> n \<and> n \<le> 222 \<and> n \<noteq> 215)
         then char_of (n + 32) else c)"

definition py_lower :: "string \<Rightarrow> string" where
  "py_lower s = map py_lower_char s"

definition digit_val :: "char \<Rightarrow> nat" where
  "digit_val c = of_char c - 48"

definition digit_char :: "nat \<Rightarrow> char" where
  "digit_char n = char_of (48 + n)"

definition nat_of_digits :: "string \<Rightarrow> nat" where
  "nat_of_digits ds = foldl (\<lambda>a c. 10 * a + digit_val c) 0 ds"

function str_nat :: "nat \<Rightarrow> string" where
  "str_nat n = (if n < 10 then [digit_char n] else str_nat (n div 10) @ [digit_char (n mod 10)])"
  by pat_completeness auto
termination
  by (relation "measure (\<lambda>n. n)") auto

declare str_nat.simps [simp del]

text \<open>\<open>str(i)\<close> of a Python integer, as the f-string \<open>f"{data_str}/{ano}"\<close> renders it.\<close>

definition py_str :: "int \<Rightarrow> string" where
  "py_str i = (if i < 0 then CHR ''-'' # str_nat (nat (- i)) else str_nat (nat i))"

datatype py_error = ValueError | AttributeError

text \<open>
  \<open>float(s)\<close>. Every string that reaches it here is what the two \<open>replace\<close> calls leave
  of an amount token, so it consists of digits, \<open>-\<close> and \<open>.\<close>. On such strings Python
  accepts exactly an optional leading \<open>-\<close>, then digits with at most one \<open>.\<close> and at
  least one digit, and raises ValueError otherwise; the model answers ValueError for
  every other string, also for the forms with other characters (exponents, underscores,
  \<open>inf\<close>) that Python would accept and that do not occur here.

  The code only stores the float and compares it with zero. The float is represented by
  the decimal value of the string, except that a magnitude of at most \<open>1 / 2 ^ 1075\<close> (half of the
  smallest positive double) is the float zero, as correct rounding gives; so the
  comparison with zero is the one that Python makes.
\<close>

definition float_de_decimal :: "rat \<Rightarrow> rat" where
  "float_de_decimal x = (if x \<le> 1 / 2 ^ 1075 then 0 else x)"

definition py_float_unsigned :: "string \<Rightarrow> py_error + rat" where
  "py_float_unsigned s =
     (let ip = takeWhile py_isdigit s
      in case dropWhile py_isdigit s of
           [] \<Rightarrow> if ip = [] then Inl ValueError
                 else Inr (float_de_decimal (of_nat (nat_of_digits ip)))
         | c # fp \<Rightarrow>
             if c = CHR ''.'' \<and> list_all py_isdigit fp \<and> (ip \<noteq> [] \<or> fp \<noteq> [])
             then Inr (float_de_decimal
                    (of_nat (nat_of_digits ip) + of_nat (nat_of_digits fp) / 10 ^ length fp))
             else Inl ValueError)"

definition py_float :: "string \<Rightarrow> py_error + rat" where
  "py_float s =
     (case s of
        [] \<Rightarrow> Inl ValueError
      | c # t \<Rightarrow>
          if c = CHR ''-'' then map_sum id uminus (py_float_unsigned t)
          else py_float_unsigned s)"

section \<open>Regular expressions\<close>

text \<open>
  The patterns of the source are searched with \<open>re.search\<close>, a backtracking matcher: the
  result is the first match in the order in which alternatives are tried (a greedy
  repetition tries one more iteration before stopping, a lazy one stops first). A matcher
  state is the groups captured so far, the position in the subject and the rest of the
  subject; \<open>run r st\<close> lists, in the order of trial, every state in which \<open>r\<close> can
  end when started in \<open>st\<close>.
\<close>

type_synonym groups = "nat \<rightharpoonup> string"
type_synonym mstate = "groups \<times> nat \<times> string"

definition caps :: "mstate \<Rightarrow> groups" where "caps st = fst st"
definition pos :: "mstate \<Rightarrow> nat" where "pos st = fst (snd st)"
definition rest :: "mstate \<Rightarrow> string" where "rest st = snd (snd st)"

datatype regex =
    Eps
  | Bol
  | Eol
  | Cls "char \<Rightarrow> bool"
  | Seq regex regex
  | Alt regex regex
  | Rep nat "nat option" bool regex
  | Grp nat regex

text \<open>
  \<open>rep_run f mn mx g\<close> repeats the body \<open>f\<close> at least \<open>mn\<close> and at most \<open>mx\<close>
  times (\<open>None\<close>: unbounded), greedily when \<open>g\<close> holds. An iteration that consumes
  nothing is not repeated, as in Python's engine.
\<close>

function rep_run ::
  "(mstate \<Rightarrow> mstate list) \<Rightarrow> nat \<Rightarrow> nat option \<Rightarrow> bool \<Rightarrow> mstate \<Rightarrow> mstate list" where
  "rep_run f mn mx g st =
     (let more = (if mx = Some 0 then []
                  else concat (map (rep_run f (mn - 1) (map_option (\<lambda>k. k - 1) mx) g)
                         (filter (\<lambda>st'. length (rest st') < length (rest st)) (f st))));
          stop = (if mn = 0 then [st] else [])
      in if g then more @ stop else stop @ more)"
  by pat_completeness auto
termination
  by (relation "measure (\<lambda>(f, mn, mx, g, st). length (rest st))") auto

declare rep_run.simps [simp del]

primrec run :: "regex \<Rightarrow> mstate \<Rightarrow> mstate list" where
  "run Eps st = [st]"
| "run Bol st = (if pos st = 0 then [st] else [])"
| "run Eol st = (if rest st = [] \<or> rest st = [CHR 0x0A] then [st] else [])"
| "run (Cls P) st =
     (case rest st of
        [] \<Rightarrow> []
      | c # cs \<Rightarrow> if P c then [(caps st, Suc (pos st), cs)] else [])"
| "run (Seq a b) st = concat (map (run b) (run a st))"
| "run (Alt a b) st = run a st @ run b st"
| "run (Rep mn mx g r) st = rep_run (run r) mn mx g st"
| "run (Grp k r) st =
     map (\<lambda>st'. ((caps st')(k \<mapsto> take (pos st' - pos st) (rest st)), pos st', rest st'))
         (run r st)"

text \<open>\<open>re.search\<close>: the first match over the start positions \<open>0, 1, ...\<close>.\<close>

definition re_search :: "regex \<Rightarrow> string \<Rightarrow> groups option" where
  "re_search r s =
     (case concat (map (\<lambda>i. run r (Map.empty, i, drop i s)) [0..<Suc (length s)]) of
        [] \<Rightarrow> None
      | st # _ \<Rightarrow> Some (caps st))"

fun seqs :: "regex list \<Rightarrow> regex" where
  "seqs [] = Eps"
| "seqs [r] = r"
| "seqs (r # rs) = Seq r (seqs rs)"

definition lit :: "char \<Rightarrow> regex" where "lit c = Cls (\<lambda>x. x = c)"
definition one_of :: "string \<Rightarrow> regex" where "one_of cs = Cls (\<lambda>x. x \<in> set cs)"
definition dig :: regex where "dig = Cls py_isdigit"
definition digs :: "nat \<Rightarrow> nat \<Rightarrow> regex" where "digs m n = Rep m (Some n) True dig"
definition spaces :: regex where "spaces = Rep 1 None True (Cls py_isspace)"
definition lazy_any :: regex where "lazy_any = Rep 1 None False (Cls (\<lambda>c. c \<noteq> CHR 0x0A))"

text \<open>\<^verbatim>\<open>\d{1,3}(?:\.\d{3})*,\d{2}\<close>\<close>

definition valor_br :: regex where
  "valor_br = seqs [digs 1 3, Rep 0 None True (Seq (lit CHR ''.'') (digs 3 3)),
                    lit CHR '','', digs 2 2]"

text \<open>\<^verbatim>\<open>\d{2}\/\d{2}\/\d{4}\<close>\<close>

definition data_dmy :: regex where
  "data_dmy = seqs [digs 2 2, lit CHR ''/'', digs 2 2, lit CHR ''/'', digs 4 4]"

text \<open>\<^verbatim>\<open>^(\d{2}\/\d{2}\/\d{4})\s+(.+?)\s+(\d{1,3}(?:\.\d{3})*,\d{2})\s+\d{1,3}(?:\.\d{3})*,\d{2}\s+\d{1,3}(?:[.,]\d{3})*\<close>\<close>

definition padrao_santander :: regex where
  "padrao_santander =
     seqs [Bol, Grp 1 data_dmy, spaces, Grp 2 lazy_any, spaces, Grp 3 valor_br,
           spaces, valor_br, spaces,
           digs 1 3, Rep 0 None True (Seq (one_of ''.,'') (digs 3 3))]"

text \<open>\<^verbatim>\<open>^(\d{2}\/\d{2}\/\d{4})\s+(.+?)\s+(-\d{1,3}(?:\.\d{3})*,\d{2})\<close>\<close>

definition padrao_negativo :: regex where
  "padrao_negativo =
     seqs [Bol, Grp 1 data_dmy, spaces, Grp 2 lazy_any, spaces,
           Grp 3 (Seq (lit CHR ''-'') valor_br)]"

text \<open>\<^verbatim>\<open>^(\d{2}\/\d{2})\s+(.+?)\s+([-,]?\d{1,3}(?:\.\d{3})*?[.,]\d{2})$\<close>\<close>

definition valor_sicoob :: regex where
  "valor_sicoob =
     seqs [Rep 0 (Some 1) True (one_of ''-,''), digs 1 3,
           Rep 0 None False (Seq (lit CHR ''.'') (digs 3 3)), one_of ''.,'', digs 2 2]"

definition padrao_sicoob :: regex where
  "padrao_sicoob =
     seqs [Bol, Grp 1 (seqs [digs 2 2, lit CHR ''/'', digs 2 2]), spaces, Grp 2 lazy_any,
           spaces, Grp 3 valor_sicoob, Eol]"

section \<open>The statement parsers\<close>

record transaction =
  Data :: string
  Descricao :: string
  Valor :: rat
  Observacao :: string

text \<open>\<open>valor_str.replace('.', '').replace(',', '.')\<close>\<close>

definition normalizar_valor :: "string \<Rightarrow> string" where
  "normalizar_valor valor_str = py_replace CHR '','' ''.'' (py_replace CHR ''.'' [] valor_str)"

text \<open>
  The body of the Santander loop for one stripped, non-empty line: the transactions it
  appends, or the exception it raises. \<open>match.groups()\<close> holds \<open>None\<close> for a group that
  took no part in the match, and the method calls on it would raise AttributeError.
\<close>

definition linha_santander :: "string \<Rightarrow> py_error + transaction list" where
  "linha_santander linha =
     (case re_search padrao_santander linha of
        Some m \<Rightarrow>
          (case (m 1, m 2, m 3) of
             (Some data_completa, Some descricao, Some valor_str) \<Rightarrow>
               (case py_float (normalizar_valor valor_str) of
                  Inl e \<Rightarrow> Inl e
                | Inr valor \<Rightarrow>
                    if valor > 0
                    then Inr [\<lparr>Data = data_completa, Descricao = py_strip descricao,
                               Valor = valor, Observacao = py_strip descricao\<rparr>]
                    else Inr [])
           | _ \<Rightarrow> Inl AttributeError)
      | None \<Rightarrow>
          (case re_search padrao_negativo linha of
             Some m \<Rightarrow> Inr []
           | None \<Rightarrow> Inr []))"

text \<open>The loop over the lines: the first exception ends it.\<close>

fun percorrer :: "(string \<Rightarrow> py_error + transaction list) \<Rightarrow> string list
    \<Rightarrow> py_error + transaction list" where
  "percorrer f [] = Inr []"
| "percorrer f (l # ls) =
     (case f l of
        Inl e \<Rightarrow> Inl e
      | Inr ts \<Rightarrow> (case percorrer f ls of Inl e \<Rightarrow> Inl e | Inr us \<Rightarrow> Inr (ts @ us)))"

definition linhas_de :: "string \<Rightarrow> string list" where
  "linhas_de texto = filter (\<lambda>l. l \<noteq> []) (map py_strip (py_split CHR 0x0A texto))"

definition processar_formato_santander :: "string \<Rightarrow> py_error + transaction list" where
  "processar_formato_santander texto = percorrer linha_santander (linhas_de texto)"

definition marcadores :: "string list" where
  "marcadores = [''SALDO ANTERIOR'', ''TOTAL'', ''GASTOS DE'']"

definition linha_sicoob :: "int \<Rightarrow> string \<Rightarrow> py_error + transaction list" where
  "linha_sicoob ano linha =
     (if list_ex (\<lambda>palavra. py_in palavra linha) marcadores then Inr []
      else
        (case re_search padrao_sicoob linha of
           None \<Rightarrow> Inr []
         | Some m \<Rightarrow>
             (case (m 1, m 2, m 3) of
                (Some data_str, Some descricao, Some valor_str) \<Rightarrow>
                  (case py_float (normalizar_valor valor_str) of
                     Inl e \<Rightarrow> Inl e
                   | Inr valor \<Rightarrow>
                       if valor > 0
                       then Inr [\<lparr>Data = data_str @ ''/'' @ py_str ano,
                                  Descricao = py_strip descricao,
                                  Valor = valor, Observacao = py_strip descricao\<rparr>]
                       else Inr [])
              | _ \<Rightarrow> Inl AttributeError)))"

definition processar_formato_sicoob :: "string \<Rightarrow> int \<Rightarrow> py_error + transaction list" where
  "processar_formato_sicoob texto ano = percorrer (linha_sicoob ano) (linhas_de texto)"

section \<open>The output table\<close>

text \<open>
  A cell of the pandas frame: a string, a float (as its decimal value), a timestamp (the
  date column after \<open>pd.to_datetime\<close>; the time of day is always midnight) or a missing
  value (\<open>NaN\<close>, \<open>NaT\<close>). A date is (year, month, day), ordered lexicographically, which
  is the order of the timestamps.
\<close>

type_synonym date = "nat \<times> nat \<times> nat"

datatype cell = Str string | Num rat | Dt date | NA

text \<open>
  A row: the ordered dictionary \<open>nova_linha\<close> of the source, and a row of the frame, whose
  keys are the frame's columns in their order.
\<close>

type_synonym linha_df = "(string \<times> cell) list"

definition possiveis_nomes :: "string list" where
  "possiveis_nomes = [''Data'', ''Data Vencimento'', ''Data_Vencimento'', ''Dt_Vencimento'', ''Date'']"

fun primeiro_nome :: "string list \<Rightarrow> string list \<Rightarrow> string option" where
  "primeiro_nome [] colunas_modelo = None"
| "primeiro_nome (nome # nomes) colunas_modelo =
     (if nome \<in> set colunas_modelo then Some nome else primeiro_nome nomes colunas_modelo)"

definition identificar_coluna_data :: "string list \<Rightarrow> string" where
  "identificar_coluna_data colunas_modelo =
     (case primeiro_nome possiveis_nomes colunas_modelo of
        Some nome \<Rightarrow> nome
      | None \<Rightarrow> (case colunas_modelo of [] \<Rightarrow> ''Data'' | c # _ \<Rightarrow> c))"

definition palavras_descricao :: "string list" where
  "palavras_descricao = [''descricao'', ''description'', ''desc'']"

definition palavras_valor :: "string list" where
  "palavras_valor = [''valor'', ''value'', ''amount'']"

definition palavras_observacao :: "string list" where
  "palavras_observacao = [''observacao'', ''obs'', ''observation'']"

text \<open>\<open>[col for col in colunas_modelo if any(palavra in col.lower() for palavra in palavras)]\<close>\<close>

definition colunas_com :: "string list \<Rightarrow> string list \<Rightarrow> string list" where
  "colunas_com palavras colunas_modelo =
     filter (\<lambda>col. list_ex (\<lambda>palavra. py_in palavra (py_lower col)) palavras) colunas_modelo"

text \<open>
  The same choice in the words of the specification: the first column whose lowercased
  name contains one of the role's keywords, if there is one.
\<close>

definition primeira_coluna :: "string list \<Rightarrow> string list \<Rightarrow> string option" where
  "primeira_coluna palavras colunas_modelo =
     find (\<lambda>col. \<exists>palavra \<in> set palavras. py_in palavra (py_lower col)) colunas_modelo"

text \<open>\<open>if colunas: nova_linha[colunas[0]] = valor\<close>\<close>

definition preencher :: "string list \<Rightarrow> cell \<Rightarrow> linha_df \<Rightarrow> linha_df" where
  "preencher colunas valor nova_linha =
     (case colunas of [] \<Rightarrow> nova_linha | c # _ \<Rightarrow> AList.update c valor nova_linha)"

definition nova_linha :: "string list \<Rightarrow> transaction \<Rightarrow> linha_df" where
  "nova_linha colunas_modelo item =
     (let l0 = foldl (\<lambda>l coluna. AList.update coluna (Str []) l) [] colunas_modelo;
          l1 = AList.update (identificar_coluna_data colunas_modelo) (Str (Data item)) l0;
          l2 = preencher (colunas_com palavras_descricao colunas_modelo) (Str (Descricao item)) l1;
          l3 = preencher (colunas_com palavras_valor colunas_modelo) (Num (Valor item)) l2
      in preencher (colunas_com palavras_observacao colunas_modelo) (Str (Observacao item)) l3)"

text \<open>
  \<open>df.loc[len(df)] = nova_linha\<close>: the dictionary is aligned with the frame's columns; a
  column without a key is missing, a key that is no column is left out.
\<close>

definition alinhar :: "string list \<Rightarrow> linha_df \<Rightarrow> linha_df" where
  "alinhar colunas l = map (\<lambda>c. (c, case map_of l c of None \<Rightarrow> NA | Some v \<Rightarrow> v)) colunas"

definition montar_tabela :: "string list \<Rightarrow> transaction list \<Rightarrow> linha_df list" where
  "montar_tabela colunas_modelo dados =
     map (\<lambda>item. alinhar colunas_modelo (nova_linha colunas_modelo item)) dados"

subsection \<open>Dates\<close>

definition bissexto :: "nat \<Rightarrow> bool" where
  "bissexto y \<longleftrightarrow> (y mod 4 = 0 \<and> y mod 100 \<noteq> 0) \<or> y mod 400 = 0"

definition dias_no_mes :: "nat \<Rightarrow> nat \<Rightarrow> nat" where
  "dias_no_mes y m =
     (if m = 2 then (if bissexto y then 29 else 28)
      else if m = 4 \<or> m = 6 \<or> m = 9 \<or> m = 11 then 30 else 31)"

text \<open>
  A calendar date that a nanosecond timestamp can hold: pandas turns a date outside
  1677-09-22 .. 2262-04-11 into \<open>NaT\<close> under \<open>errors='coerce'\<close>.
\<close>

definition data_valida :: "date \<Rightarrow> bool" where
  "data_valida d =
     (case d of (y, m, dd) \<Rightarrow>
        1 \<le> m \<and> m \<le> 12 \<and> 1 \<le> dd \<and> dd \<le> dias_no_mes y m
        \<and> (1677, 9, 22) \<le> d \<and> d \<le> (2262, 4, 11))"

text \<open>
  The fields that the directives of \<open>format='%d/%m/%Y'\<close> accept: \<open>%d\<close> is one or two digits
  from 1 to 31 (or a space and a digit), \<open>%m\<close> one or two digits from 1 to 12, \<open>%Y\<close> four
  digits; the whole string must be consumed.
\<close>

definition campo_dia :: "string \<Rightarrow> nat option" where
  "campo_dia s =
     (case s of
        [a] \<Rightarrow> if py_isdigit a \<and> a \<noteq> CHR ''0'' then Some (digit_val a) else None
      | [a, b] \<Rightarrow>
          if a = CHR '' '' \<and> py_isdigit b \<and> b \<noteq> CHR ''0'' then Some (digit_val b)
          else if py_isdigit a \<and> py_isdigit b \<and> 1 \<le> nat_of_digits s \<and> nat_of_digits s \<le> 31
          then Some (nat_of_digits s) else None
      | _ \<Rightarrow> None)"

definition campo_mes :: "string \<Rightarrow> nat option" where
  "campo_mes s =
     (case s of
        [a] \<Rightarrow> if py_isdigit a \<and> a \<noteq> CHR ''0'' then Some (digit_val a) else None
      | [a, b] \<Rightarrow>
          if py_isdigit a \<and> py_isdigit b \<and> 1 \<le> nat_of_digits s \<and> nat_of_digits s \<le> 12
          then Some (nat_of_digits s) else None
      | _ \<Rightarrow> None)"

definition campo_ano :: "string \<Rightarrow> nat option" where
  "campo_ano s = (if length s = 4 \<and> list_all py_isdigit s then Some (nat_of_digits s) else None)"

definition strptime_dmY :: "string \<Rightarrow> date option" where
  "strptime_dmY s =
     (case py_split CHR ''/'' s of
        [d, m, y] \<Rightarrow>
          (case (campo_dia d, campo_mes m, campo_ano y) of
             (Some dd, Some mm, Some yy) \<Rightarrow>
               if data_valida (yy, mm, dd) then Some (yy, mm, dd) else None
           | _ \<Rightarrow> None)
      | _ \<Rightarrow> None)"

definition dois_digitos :: "nat \<Rightarrow> string" where
  "dois_digitos n = [digit_char (n div 10), digit_char (n mod 10)]"

definition quatro_digitos :: "nat \<Rightarrow> string" where
  "quatro_digitos n = [digit_char (n div 1000), digit_char (n div 100 mod 10),
                       digit_char (n div 10 mod 10), digit_char (n mod 10)]"

text \<open>\<open>strftime('%d/%m/%Y')\<close> of a timestamp.\<close>

definition strftime_dmY :: "date \<Rightarrow> string" where
  "strftime_dmY d = (case d of (y, m, dd) \<Rightarrow> dois_digitos dd @ ''/'' @ dois_digitos m @ ''/'' @ quatro_digitos y)"

text \<open>
  \<open>pd.to_datetime(column, format='%d/%m/%Y', errors='coerce')\<close> on one cell: a string that
  does not parse becomes \<open>NaT\<close>; a float is parsed through its \<open>str\<close>, which has no
  \<open>/\<close>, and becomes \<open>NaT\<close> as well.
\<close>

definition to_datetime :: "cell \<Rightarrow> cell" where
  "to_datetime c =
     (case c of
        Str s \<Rightarrow> (case strptime_dmY s of None \<Rightarrow> NA | Some d \<Rightarrow> Dt d)
      | Dt d \<Rightarrow> if data_valida d then Dt d else NA
      | _ \<Rightarrow> NA)"

definition dt_strftime :: "cell \<Rightarrow> cell" where
  "dt_strftime c = (case c of Dt d \<Rightarrow> Str (strftime_dmY d) | _ \<Rightarrow> NA)"

text \<open>What the sorting block does to a cell of the date column that it keeps.\<close>

definition rerender :: "cell \<Rightarrow> cell" where
  "rerender c = dt_strftime (to_datetime c)"

subsection \<open>Sorting by date and dropping the rows without one\<close>

definition celula :: "string \<Rightarrow> linha_df \<Rightarrow> cell" where
  "celula col l = (case map_of l col of None \<Rightarrow> NA | Some v \<Rightarrow> v)"

text \<open>\<open>df[col] = f(df[col])\<close>, row by row.\<close>

definition atualizar :: "string \<Rightarrow> (cell \<Rightarrow> cell) \<Rightarrow> linha_df \<Rightarrow> linha_df" where
  "atualizar col f l = map (\<lambda>(c, v). if c = col then (c, f v) else (c, v)) l"

text \<open>The date that a row's cell in column \<open>col\<close> parses to, and whether it parses.\<close>

definition tem_data :: "string \<Rightarrow> linha_df \<Rightarrow> bool" where
  "tem_data col l \<longleftrightarrow> to_datetime (celula col l) \<noteq> NA"

definition data_da_linha :: "string \<Rightarrow> linha_df \<Rightarrow> date" where
  "data_da_linha col l = (case to_datetime (celula col l) of Dt d \<Rightarrow> d | _ \<Rightarrow> (0, 0, 0))"

definition chave :: "string \<Rightarrow> linha_df \<Rightarrow> date" where
  "chave col l = (case celula col l of Dt d \<Rightarrow> d | _ \<Rightarrow> (0, 0, 0))"

text \<open>
  \<open>df.sort_values(by=col)\<close> is called with the default \<open>kind='quicksort'\<close>. pandas sorts
  the rows that have a timestamp by the index permutation that numpy's \<open>argsort\<close>
  returns for their keys, and puts the rows without one after them in their input
  order. What \<open>argsort\<close> returns for equal keys is not fixed by the source (pandas
  documents only \<open>mergesort\<close> and \<open>stable\<close> as stable), so it is a parameter
  \<open>argsort\<close> here, of which \<open>argsort_ok\<close> states what every sorting kind guarantees: the
  result is a permutation of the positions that puts the keys in ascending order.
\<close>

definition argsort_ok :: "(date list \<Rightarrow> nat list) \<Rightarrow> bool" where
  "argsort_ok argsort \<longleftrightarrow>
     (\<forall>ks. mset (argsort ks) = mset [0..<length ks] \<and> sorted (map (\<lambda>i. ks ! i) (argsort ks)))"

definition sort_values :: "(date list \<Rightarrow> nat list) \<Rightarrow> string \<Rightarrow> linha_df list \<Rightarrow> linha_df list" where
  "sort_values argsort col df =
     (let com_data = filter (\<lambda>l. celula col l \<noteq> NA) df;
          sem_data = filter (\<lambda>l. celula col l = NA) df
      in map (\<lambda>i. com_data ! i) (argsort (map (chave col) com_data)) @ sem_data)"

text \<open>\<open>df.dropna(subset=[col])\<close>\<close>

definition dropna :: "string \<Rightarrow> linha_df list \<Rightarrow> linha_df list" where
  "dropna col df = filter (\<lambda>l. celula col l \<noteq> NA) df"

text \<open>
  The block of \<open>processar_fatura\<close> that sorts the frame: it runs when the date column is
  a column of the frame and the frame has rows.
\<close>

definition ordenar_por_data ::
  "(date list \<Rightarrow> nat list) \<Rightarrow> string \<Rightarrow> string list \<Rightarrow> linha_df list \<Rightarrow> linha_df list" where
  "ordenar_por_data argsort nome_coluna_data colunas df =
     (if nome_coluna_data \<in> set colunas \<and> df \<noteq> []
      then map (atualizar nome_coluna_data dt_strftime)
             (dropna nome_coluna_data
               (sort_values argsort nome_coluna_data
                 (map (atualizar nome_coluna_data to_datetime) df)))
      else df)"

text \<open>The frame that \<open>processar_fatura\<close> hands to the spreadsheet writer.\<close>

definition tabela_final ::
  "(date list \<Rightarrow> nat list) \<Rightarrow> string list \<Rightarrow> transaction list \<Rightarrow> linha_df list" where
  "tabela_final argsort colunas_modelo dados =
     ordenar_por_data argsort (identificar_coluna_data colunas_modelo) colunas_modelo
       (montar_tabela colunas_modelo dados)"

text \<open>
  Two index sorts that meet \<open>argsort_ok\<close>: one keeps equal keys in their input order,
  the other reverses them.
\<close>

definition argsort_estavel :: "date list \<Rightarrow> nat list" where
  "argsort_estavel ks = sort_key (\<lambda>i. ks ! i) [0..<length ks]"


section \<open>The language of a pattern\<close>

text \<open>
  The words that a pattern denotes (anchors denote the empty word), used to say which
  lines a pattern can match and what a group can capture. \<open>sem_grupos\<close> holds for a
  pattern without groups, \<open>simples\<close> for one that has neither groups nor anchors and
  whose repetition bodies consume at least one character.
\<close>

primrec lang :: "regex \<Rightarrow> string set" where
  "lang Eps = {[]}"
| "lang Bol = {[]}"
| "lang Eol = {[]}"
| "lang (Cls P) = {[c] | c. P c}"
| "lang (Seq a b) = {u @ v | u v. u \<in> lang a \<and> v \<in> lang b}"
| "lang (Alt a b) = lang a \<union> lang b"
| "lang (Rep mn mx g r) =
     {concat ws | ws. set ws \<subseteq> lang r \<and> mn \<le> length ws \<and> (\<forall>k. mx = Some k \<longrightarrow> length ws \<le> k)}"
| "lang (Grp k r) = lang r"

primrec sem_grupos :: "regex \<Rightarrow> bool" where
  "sem_grupos Eps = True"
| "sem_grupos Bol = True"
| "sem_grupos Eol = True"
| "sem_grupos (Cls P) = True"
| "sem_grupos (Seq a b) = (sem_grupos a \<and> sem_grupos b)"
| "sem_grupos (Alt a b) = (sem_grupos a \<and> sem_grupos b)"
| "sem_grupos (Rep mn mx g r) = sem_grupos r"
| "sem_grupos (Grp k r) = False"

primrec simples :: "regex \<Rightarrow> bool" where
  "simples Eps = True"
| "simples Bol = False"
| "simples Eol = False"
| "simples (Cls P) = True"
| "simples (Seq a b) = (simples a \<and> simples b)"
| "simples (Alt a b) = (simples a \<and> simples b)"
| "simples (Rep mn mx g r) = (simples r \<and> [] \<notin> lang r)"
| "simples (Grp k r) = False"

section \<open>The shapes of the tokens\<close>

text \<open>
  The tokens of a statement line in the words of the specification: a date
  \<open>DD/MM/YYYY\<close>, a day and month \<open>DD/MM\<close>, an amount with \<open>.\<close> between groups of
  thousands and \<open>,\<close> before two decimals, a run of white space, a description.
\<close>

definition so_digitos :: "string \<Rightarrow> bool" where
  "so_digitos s = list_all py_isdigit s"

definition eh_data_dmy :: "string \<Rightarrow> bool" where
  "eh_data_dmy s \<longleftrightarrow>
     (\<exists>dd mm yyyy. s = dd @ ''/'' @ mm @ ''/'' @ yyyy
        \<and> length dd = 2 \<and> length mm = 2 \<and> length yyyy = 4
        \<and> so_digitos dd \<and> so_digitos mm \<and> so_digitos yyyy)"

definition eh_dia_mes :: "string \<Rightarrow> bool" where
  "eh_dia_mes s \<longleftrightarrow>
     (\<exists>dd mm. s = dd @ ''/'' @ mm \<and> length dd = 2 \<and> length mm = 2
        \<and> so_digitos dd \<and> so_digitos mm)"

definition eh_valor_br :: "string \<Rightarrow> bool" where
  "eh_valor_br s \<longleftrightarrow>
     (\<exists>ip gs dd. s = ip @ concat gs @ '','' @ dd
        \<and> 1 \<le> length ip \<and> length ip \<le> 3 \<and> so_digitos ip
        \<and> (\<forall>g \<in> set gs. \<exists>t. g = CHR ''.'' # t \<and> length t = 3 \<and> so_digitos t)
        \<and> length dd = 2 \<and> so_digitos dd)"

definition eh_espacos :: "string \<Rightarrow> bool" where
  "eh_espacos s \<longleftrightarrow> s \<noteq> [] \<and> list_all py_isspace s"

definition eh_descricao :: "string \<Rightarrow> bool" where
  "eh_descricao s \<longleftrightarrow> s \<noteq> [] \<and> CHR 0x0A \<notin> set s"

section \<open>The matcher and the languages of the patterns\<close>

text \<open>
  Every end state of \<open>run\<close> has consumed a word of the pattern's language (soundness),
  and for a pattern without anchors every word of the language at the head of the subject
  leads to an end state (completeness).
\<close>

lemma rep_run_sound_aux:
  "(\<forall>st st'. st' \<in> set (f st) \<longrightarrow>
      caps st' = caps st \<and> (\<exists>w. rest st = w @ rest st' \<and> pos st' = pos st + length w \<and> w \<in> L))
   \<Longrightarrow> st' \<in> set (rep_run f mn mx g st) \<Longrightarrow>
     caps st' = caps st \<and>
     (\<exists>ws. rest st = concat ws @ rest st' \<and> pos st' = pos st + length (concat ws)
        \<and> set ws \<subseteq> L \<and> mn \<le> length ws \<and> (\<forall>k. mx = Some k \<longrightarrow> length ws \<le> k))"
proof (induction f mn mx g st arbitrary: st' rule: rep_run.induct)
  case (1 f mn mx g st)
  note body = "1.prems"(1)
  let ?more = "if mx = Some 0 then []
       else concat (map (rep_run f (mn - 1) (map_option (\<lambda>k. k - 1) mx) g)
              (filter (\<lambda>st'. length (rest st') < length (rest st)) (f st)))"
  let ?stop = "if mn = 0 then [st] else []"
  from "1.prems"(2) have "st' \<in> set ?more \<or> st' \<in> set ?stop"
    by (subst (asm) rep_run.simps) (auto simp: Let_def split: if_splits)
  then show ?case
  proof
    assume "st' \<in> set ?stop"
    then have "st' = st" "mn = 0" by (auto split: if_splits)
    then show ?thesis by (intro conjI exI[of _ "[]"]) auto
  next
    assume m: "st' \<in> set ?more"
    then have mx: "mx \<noteq> Some 0" by (auto split: if_splits)
    with m obtain x where x: "x \<in> set (f st)" "length (rest x) < length (rest st)"
      "st' \<in> set (rep_run f (mn - 1) (map_option (\<lambda>k. k - 1) mx) g x)"
      by auto
    from body x(1) obtain w where w: "caps x = caps st" "rest st = w @ rest x"
      "pos x = pos st + length w" "w \<in> L" by blast
    have xin: "x \<in> set (filter (\<lambda>st'. length (rest st') < length (rest st)) (f st))"
      using x(1,2) by simp
    from "1.IH"[OF mx xin body x(3)]
    obtain ws where ws: "caps st' = caps x" "rest x = concat ws @ rest st'"
      "pos st' = pos x + length (concat ws)" "set ws \<subseteq> L" "mn - 1 \<le> length ws"
      "\<forall>k. map_option (\<lambda>k. k - 1) mx = Some k \<longrightarrow> length ws \<le> k"
      by auto
    have "\<forall>k. mx = Some k \<longrightarrow> length (w # ws) \<le> k"
      using ws(6) mx by (cases mx) auto
    moreover have "mn \<le> length (w # ws)" using ws(5) by simp
    ultimately show ?thesis
      using w ws by (intro conjI exI[of _ "w # ws"]) auto
  qed
qed

lemma rep_run_sound:
  assumes "\<And>st st'. st' \<in> set (f st) \<Longrightarrow>
      caps st' = caps st \<and> (\<exists>w. rest st = w @ rest st' \<and> pos st' = pos st + length w \<and> w \<in> L)"
    and "st' \<in> set (rep_run f mn mx g st)"
  shows "caps st' = caps st \<and>
     (\<exists>ws. rest st = concat ws @ rest st' \<and> pos st' = pos st + length (concat ws)
        \<and> set ws \<subseteq> L \<and> mn \<le> length ws \<and> (\<forall>k. mx = Some k \<longrightarrow> length ws \<le> k))"
proof (rule rep_run_sound_aux[of f L])
  show "\<forall>st st'. st' \<in> set (f st) \<longrightarrow>
      caps st' = caps st \<and> (\<exists>w. rest st = w @ rest st' \<and> pos st' = pos st + length w \<and> w \<in> L)"
    using assms(1) by blast
  show "st' \<in> set (rep_run f mn mx g st)" by fact
qed

lemma run_sound:
  "sem_grupos r \<Longrightarrow> st' \<in> set (run r st) \<Longrightarrow>
     caps st' = caps st \<and> (\<exists>w. rest st = w @ rest st' \<and> pos st' = pos st + length w \<and> w \<in> lang r)"
proof (induction r arbitrary: st st')
  case (Cls P)
  obtain c p s where st: "st = (c, p, s)" by (cases st) auto
  from Cls show ?case
    by (cases s) (auto simp: st caps_def pos_def rest_def split: if_splits)
next
  case (Seq a b)
  from Seq.prems obtain sm where sm: "sm \<in> set (run a st)" "st' \<in> set (run b sm)" by auto
  from Seq.IH(1)[OF _ sm(1)] Seq.prems(1)
  obtain u where u: "caps sm = caps st" "rest st = u @ rest sm" "pos sm = pos st + length u"
    "u \<in> lang a" by auto
  from Seq.IH(2)[OF _ sm(2)] Seq.prems(1)
  obtain v where v: "caps st' = caps sm" "rest sm = v @ rest st'" "pos st' = pos sm + length v"
    "v \<in> lang b" by auto
  show ?case using u v by (intro conjI exI[of _ "u @ v"]) auto
next
  case (Alt a b)
  from Alt.prems(2) consider "st' \<in> set (run a st)" | "st' \<in> set (run b st)" by auto
  then show ?case
  proof cases
    case 1
    from Alt.IH(1)[OF _ 1] Alt.prems(1) show ?thesis by auto
  next
    case 2
    from Alt.IH(2)[OF _ 2] Alt.prems(1) show ?thesis by auto
  qed
next
  case (Rep mn mx g r)
  have body: "\<And>st st'. st' \<in> set (run r st) \<Longrightarrow>
      caps st' = caps st \<and> (\<exists>w. rest st = w @ rest st' \<and> pos st' = pos st + length w \<and> w \<in> lang r)"
    using Rep.IH Rep.prems(1) by simp
  from Rep.prems(2) have "st' \<in> set (rep_run (run r) mn mx g st)" by simp
  from rep_run_sound[of "run r" "lang r", OF body this]
  show ?case by auto
qed (auto split: if_splits)

lemma run_Grp_sound:
  assumes "sem_grupos r" "st' \<in> set (run (Grp k r) st)"
  shows "\<exists>w. caps st' = (caps st)(k \<mapsto> w) \<and> rest st = w @ rest st'
           \<and> pos st' = pos st + length w \<and> w \<in> lang r"
proof -
  from assms(2) obtain s where s: "s \<in> set (run r st)"
    "st' = ((caps s)(k \<mapsto> take (pos s - pos st) (rest st)), pos s, rest s)" by auto
  from run_sound[OF assms(1) s(1)] obtain w where w: "caps s = caps st" "rest st = w @ rest s"
    "pos s = pos st + length w" "w \<in> lang r" by blast
  show ?thesis using w s(2) by (intro exI[of _ w]) (simp add: caps_def pos_def rest_def)
qed

lemma rep_run_complete:
  assumes body: "\<And>w c p t. w \<in> L \<Longrightarrow> (c, p + length w, t) \<in> set (f (c, p, w @ t))"
    and ne: "[] \<notin> L"
  shows "set ws \<subseteq> L \<Longrightarrow> mn \<le> length ws \<Longrightarrow> (\<forall>k. mx = Some k \<longrightarrow> length ws \<le> k) \<Longrightarrow>
     (c, p + length (concat ws), t) \<in> set (rep_run f mn mx g (c, p, concat ws @ t))"
proof (induction ws arbitrary: mn mx c p)
  case Nil
  then show ?case by (subst rep_run.simps) (simp add: Let_def)
next
  case (Cons w ws)
  from Cons.prems have w: "w \<in> L" "w \<noteq> []" using ne by auto
  from Cons.prems have mx: "mx \<noteq> Some 0" by auto
  let ?x = "(c, p + length w, concat ws @ t)"
  have x: "?x \<in> set (f (c, p, concat (w # ws) @ t))" using body[OF w(1), of c p "concat ws @ t"] by simp
  have pr: "length (rest ?x) < length (rest (c, p, concat (w # ws) @ t))"
    using w(2) by (simp add: rest_def)
  have "(c, (p + length w) + length (concat ws), t)
      \<in> set (rep_run f (mn - 1) (map_option (\<lambda>k. k - 1) mx) g ?x)"
    using Cons.prems by (intro Cons.IH) (auto split: option.splits)
  then have "(c, p + length (concat (w # ws)), t)
      \<in> set (rep_run f (mn - 1) (map_option (\<lambda>k. k - 1) mx) g ?x)"
    by (simp add: add.assoc)
  with x pr mx show ?case
    by (subst rep_run.simps) (auto simp: Let_def)
qed

lemma run_complete:
  "simples r \<Longrightarrow> w \<in> lang r \<Longrightarrow> (c, p + length w, t) \<in> set (run r (c, p, w @ t))"
proof (induction r arbitrary: w c p t)
  case (Seq a b)
  from Seq.prems obtain u v where uv: "w = u @ v" "u \<in> lang a" "v \<in> lang b" by auto
  have 1: "(c, p + length u, v @ t) \<in> set (run a (c, p, u @ v @ t))"
    using Seq.IH(1)[of u c p "v @ t"] uv Seq.prems(1) by simp
  have 2: "(c, p + length u + length v, t) \<in> set (run b (c, p + length u, v @ t))"
    using Seq.IH(2)[of v c "p + length u" t] uv Seq.prems(1) by simp
  from 1 2 show ?case unfolding uv(1) by (auto simp: add.assoc)
next
  case (Rep mn mx g r)
  from Rep.prems obtain ws where ws: "w = concat ws" "set ws \<subseteq> lang r" "mn \<le> length ws"
    "\<forall>k. mx = Some k \<longrightarrow> length ws \<le> k" by auto
  have body: "\<And>w c p t. w \<in> lang r \<Longrightarrow> (c, p + length w, t) \<in> set (run r (c, p, w @ t))"
    using Rep.IH Rep.prems(1) by simp
  have ne: "[] \<notin> lang r" using Rep.prems(1) by simp
  from rep_run_complete[of "lang r" "run r", OF body ne ws(2,3,4)]
  show ?case by (simp add: ws(1))
qed (auto simp: caps_def pos_def rest_def)

lemma run_Grp_complete:
  assumes "simples r" "w \<in> lang r"
  shows "(c(k \<mapsto> w), p + length w, t) \<in> set (run (Grp k r) (c, p, w @ t))"
proof -
  from run_complete[OF assms, of c p t]
  have "(\<lambda>st'. ((caps st')(k \<mapsto> take (pos st' - pos (c, p, w @ t)) (rest (c, p, w @ t))), pos st', rest st'))
      (c, p + length w, t) \<in> set (run (Grp k r) (c, p, w @ t))"
    by (simp only: run.simps set_map) (rule imageI)
  then show ?thesis by (simp add: caps_def pos_def rest_def)
qed

lemma concat_singletons:
  "set ws \<subseteq> {[c] | c. P c} \<Longrightarrow> list_all P (concat ws) \<and> length (concat ws) = length ws"
  by (induction ws) auto

lemma lang_Rep_Cls:
  "lang (Rep mn mx g (Cls P)) =
     {s. list_all P s \<and> mn \<le> length s \<and> (\<forall>k. mx = Some k \<longrightarrow> length s \<le> k)}"
proof (intro set_eqI iffI)
  fix s assume "s \<in> lang (Rep mn mx g (Cls P))"
  then obtain ws where ws: "s = concat ws" "set ws \<subseteq> {[c] | c. P c}" "mn \<le> length ws"
    "\<forall>k. mx = Some k \<longrightarrow> length ws \<le> k" by auto
  from concat_singletons[OF ws(2)] ws
  show "s \<in> {s. list_all P s \<and> mn \<le> length s \<and> (\<forall>k. mx = Some k \<longrightarrow> length s \<le> k)}"
    by simp
next
  fix s assume "s \<in> {s. list_all P s \<and> mn \<le> length s \<and> (\<forall>k. mx = Some k \<longrightarrow> length s \<le> k)}"
  then have s: "list_all P s" "mn \<le> length s" "\<forall>k. mx = Some k \<longrightarrow> length s \<le> k" by auto
  have c: "s = concat (map (\<lambda>c. [c]) s)" by (induction s) auto
  have m: "set (map (\<lambda>c. [c]) s) \<subseteq> {[c] | c. P c}" using s(1) by (auto simp: list_all_iff)
  have "\<exists>ws. s = concat ws \<and> set ws \<subseteq> {[c] | c. P c} \<and> mn \<le> length ws
      \<and> (\<forall>k. mx = Some k \<longrightarrow> length ws \<le> k)"
    using c m s(2,3) by (intro exI[of _ "map (\<lambda>c. [c]) s"]) simp
  then show "s \<in> lang (Rep mn mx g (Cls P))" by simp
qed

lemma lang_digs: "lang (digs m n) = {s. so_digitos s \<and> m \<le> length s \<and> length s \<le> n}"
  unfolding digs_def dig_def lang_Rep_Cls so_digitos_def by auto

lemma lang_spaces: "lang spaces = {s. eh_espacos s}"
  unfolding spaces_def lang_Rep_Cls eh_espacos_def by (auto simp: Suc_le_eq)

lemma lang_lazy_any: "lang lazy_any = {s. eh_descricao s}"
  unfolding lazy_any_def lang_Rep_Cls eh_descricao_def by (auto simp: Suc_le_eq list_all_iff)

lemma lang_lit: "lang (lit c) = {[c]}"
  by (auto simp: lit_def)

lemma lang_Seq_iff: "w \<in> lang (Seq a b) \<longleftrightarrow> (\<exists>u v. w = u @ v \<and> u \<in> lang a \<and> v \<in> lang b)"
  by auto

lemma lang_data_dmy_D:
  assumes "s \<in> lang data_dmy" shows "eh_data_dmy s"
proof -
  from assms obtain a b c d e where "s = a @ b @ c @ d @ e" "a \<in> lang (digs 2 2)"
    "b \<in> lang (lit CHR ''/'')" "c \<in> lang (digs 2 2)" "d \<in> lang (lit CHR ''/'')"
    "e \<in> lang (digs 4 4)"
    unfolding data_dmy_def seqs.simps lang_Seq_iff by blast
  then have "s = a @ ''/'' @ c @ ''/'' @ e \<and> length a = 2 \<and> length c = 2 \<and> length e = 4
      \<and> so_digitos a \<and> so_digitos c \<and> so_digitos e"
    by (simp add: lang_digs lang_lit)
  then show ?thesis unfolding eh_data_dmy_def by blast
qed

lemma lang_data_dmy_I:
  assumes "eh_data_dmy s" shows "s \<in> lang data_dmy"
proof -
  from assms obtain a c e where s: "s = a @ ''/'' @ c @ ''/'' @ e" "length a = 2" "length c = 2"
    "length e = 4" "so_digitos a" "so_digitos c" "so_digitos e"
    unfolding eh_data_dmy_def by blast
  have "a \<in> lang (digs 2 2)" "''/'' \<in> lang (lit CHR ''/'')" "c \<in> lang (digs 2 2)"
    "e \<in> lang (digs 4 4)"
    using s by (simp_all add: lang_digs lang_lit)
  then show ?thesis
    unfolding data_dmy_def seqs.simps lang_Seq_iff s(1) by blast
qed

lemma lang_valor_br_D:
  assumes "s \<in> lang valor_br" shows "eh_valor_br s"
proof -
  from assms obtain a g c d where s: "s = a @ g @ c @ d" "a \<in> lang (digs 1 3)"
    "g \<in> lang (Rep 0 None True (Seq (lit CHR ''.'') (digs 3 3)))"
    "c \<in> lang (lit CHR '','')" "d \<in> lang (digs 2 2)"
    unfolding valor_br_def seqs.simps lang_Seq_iff by blast
  from s(3) obtain gs where gs: "g = concat gs" "set gs \<subseteq> lang (Seq (lit CHR ''.'') (digs 3 3))"
    by auto
  have "\<forall>w \<in> set gs. \<exists>t. w = CHR ''.'' # t \<and> length t = 3 \<and> so_digitos t"
    using gs(2) by (auto simp: lang_lit lang_digs)
  moreover have "s = a @ concat gs @ '','' @ d" "1 \<le> length a" "length a \<le> 3" "so_digitos a"
    "length d = 2" "so_digitos d"
    using s gs(1) by (simp_all add: lang_digs lang_lit)
  ultimately show ?thesis unfolding eh_valor_br_def by blast
qed

lemma lang_valor_br_I:
  assumes "eh_valor_br s" shows "s \<in> lang valor_br"
proof -
  from assms obtain a gs d where s: "s = a @ concat gs @ '','' @ d" "1 \<le> length a" "length a \<le> 3"
    "so_digitos a" "\<forall>g \<in> set gs. \<exists>t. g = CHR ''.'' # t \<and> length t = 3 \<and> so_digitos t"
    "length d = 2" "so_digitos d"
    unfolding eh_valor_br_def by blast
  have "set gs \<subseteq> lang (Seq (lit CHR ''.'') (digs 3 3))"
    using s(5) by (auto simp: lang_lit lang_digs)
  then have g: "concat gs \<in> lang (Rep 0 None True (Seq (lit CHR ''.'') (digs 3 3)))"
    by (simp only: lang.simps mem_Collect_eq) blast
  have "a \<in> lang (digs 1 3)" "'','' \<in> lang (lit CHR '','')" "d \<in> lang (digs 2 2)"
    using s by (simp_all add: lang_digs lang_lit)
  with g show ?thesis
    unfolding valor_br_def seqs.simps lang_Seq_iff s(1) by blast
qed

lemma lang_dia_mes_D:
  assumes "s \<in> lang (seqs [digs 2 2, lit CHR ''/'', digs 2 2])" shows "eh_dia_mes s"
proof -
  from assms obtain a b c where "s = a @ b @ c" "a \<in> lang (digs 2 2)"
    "b \<in> lang (lit CHR ''/'')" "c \<in> lang (digs 2 2)"
    unfolding seqs.simps lang_Seq_iff by blast
  then have "s = a @ ''/'' @ c \<and> length a = 2 \<and> length c = 2 \<and> so_digitos a \<and> so_digitos c"
    by (simp add: lang_digs lang_lit)
  then show ?thesis unfolding eh_dia_mes_def by blast
qed

lemma py_replace_append: "py_replace c n (a @ b) = py_replace c n a @ py_replace c n b"
  by (simp add: py_replace_def)

lemma py_replace_id: "c \<notin> set s \<Longrightarrow> py_replace c n s = s"
  by (induction s) (auto simp: py_replace_def)

lemma py_replace_Cons:
  "py_replace c n (x # s) = (if x = c then n else [x]) @ py_replace c n s"
  by (simp add: py_replace_def)

lemma digito_nao_pontuacao:
  "py_isdigit c \<Longrightarrow> c \<noteq> CHR ''.'' \<and> c \<noteq> CHR '','' \<and> c \<noteq> CHR ''-''"
  by (auto simp: py_isdigit_def)

lemma so_digitos_sem_pontuacao:
  "so_digitos s \<Longrightarrow> CHR ''.'' \<notin> set s \<and> CHR '','' \<notin> set s"
  using digito_nao_pontuacao by (auto simp: so_digitos_def list_all_iff)

lemma so_digitos_append [simp]: "so_digitos (a @ b) \<longleftrightarrow> so_digitos a \<and> so_digitos b"
  by (simp add: so_digitos_def)

lemma tira_pontos_grupos:
  "\<forall>g \<in> set gs. \<exists>t. g = CHR ''.'' # t \<and> length t = 3 \<and> so_digitos t \<Longrightarrow>
   py_replace CHR ''.'' [] (concat gs) = concat (map tl gs) \<and> so_digitos (concat (map tl gs))"
proof (induction gs)
  case Nil
  then show ?case by (simp add: py_replace_def so_digitos_def)
next
  case (Cons g gs)
  then obtain t where t: "g = CHR ''.'' # t" "so_digitos t" by auto
  from so_digitos_sem_pontuacao[OF t(2)] have "py_replace CHR ''.'' [] t = t"
    by (simp add: py_replace_id)
  with Cons t show ?case by (simp add: py_replace_append py_replace_Cons)
qed

lemma normalizar_valor_br:
  assumes "so_digitos ip" "\<forall>g \<in> set gs. \<exists>t. g = CHR ''.'' # t \<and> length t = 3 \<and> so_digitos t"
    "so_digitos dd"
  shows "normalizar_valor (ip @ concat gs @ '','' @ dd) = (ip @ concat (map tl gs)) @ ''.'' @ dd"
    and "so_digitos (ip @ concat (map tl gs))"
proof -
  note g = tira_pontos_grupos[OF assms(2)]
  have 1: "py_replace CHR ''.'' [] (ip @ concat gs @ '','' @ dd) = ip @ concat (map tl gs) @ '','' @ dd"
    using so_digitos_sem_pontuacao[OF assms(1)] so_digitos_sem_pontuacao[OF assms(3)] g
    by (simp add: py_replace_append py_replace_id py_replace_Cons)
  have 2: "py_replace CHR '','' ''.'' (ip @ concat (map tl gs) @ '','' @ dd)
      = ip @ concat (map tl gs) @ ''.'' @ dd"
    using so_digitos_sem_pontuacao[OF assms(1)] so_digitos_sem_pontuacao[OF assms(3)]
      so_digitos_sem_pontuacao[of "concat (map tl gs)"] g
    by (simp add: py_replace_append py_replace_id py_replace_Cons)
  show "normalizar_valor (ip @ concat gs @ '','' @ dd) = (ip @ concat (map tl gs)) @ ''.'' @ dd"
    using 1 2 by (simp add: normalizar_valor_def)
  show "so_digitos (ip @ concat (map tl gs))" using assms(1) g by simp
qed

lemma float_de_decimal_code [code]:
  "float_de_decimal x =
     (if x \<le> 0 then 0 else if 1 / 1000000 \<le> x then x
      else if x \<le> 1 / 2 ^ 1075 then 0 else x)"
proof -
  define e :: rat where "e = 1 / 2 ^ 1075"
  have "(2::rat) ^ 20 \<le> 2 ^ 1075" by (rule power_increasing) simp_all
  then have "e \<le> 1 / 2 ^ 20" unfolding e_def by (simp add: field_simps del: power_numeral)
  also have "\<dots> < 1 / 1000000" by simp
  finally have 1: "e < 1 / 1000000" .
  have 2: "0 < e" unfolding e_def by (simp del: power_numeral)
  have "(if x \<le> e then 0 else x) =
     (if x \<le> 0 then 0 else if 1 / 1000000 \<le> x then x else if x \<le> e then 0 else x)"
    using 1 2 by auto
  then show ?thesis unfolding float_de_decimal_def e_def .
qed

lemma float_de_decimal_nonneg: "0 \<le> x \<Longrightarrow> 0 \<le> float_de_decimal x"
  unfolding float_de_decimal_def by simp

lemma py_float_decimal:
  assumes "so_digitos D" "D \<noteq> []" "so_digitos F"
  shows "py_float (D @ ''.'' @ F)
     = Inr (float_de_decimal
         (of_nat (nat_of_digits D) + of_nat (nat_of_digits F) / 10 ^ length F))"
proof -
  from assms(1,2) obtain c D' where D: "D = c # D'" "py_isdigit c"
    by (cases D) (auto simp: so_digitos_def)
  have all: "\<forall>x \<in> set D. py_isdigit x" using assms(1) by (simp add: so_digitos_def list_all_iff)
  have nd: "\<not> py_isdigit CHR ''.''" by (simp add: py_isdigit_def)
  have tw: "takeWhile py_isdigit (D @ ''.'' @ F) = D"
    using all nd by (simp add: takeWhile_append2)
  have dw: "dropWhile py_isdigit (D @ ''.'' @ F) = ''.'' @ F"
    using all nd by (simp add: dropWhile_append2)
  have u: "py_float_unsigned (D @ ''.'' @ F)
     = Inr (float_de_decimal
         (of_nat (nat_of_digits D) + of_nat (nat_of_digits F) / 10 ^ length F))"
    unfolding py_float_unsigned_def tw dw using assms(2,3) by (simp add: so_digitos_def)
  have "c \<noteq> CHR ''-''" using D(2) digito_nao_pontuacao by blast
  then have "py_float (D @ ''.'' @ F) = py_float_unsigned (D @ ''.'' @ F)"
    by (simp add: py_float_def D(1))
  with u show ?thesis by simp
qed

lemma valor_br_float:
  assumes "eh_valor_br v"
  shows "\<exists>x. py_float (normalizar_valor v) = Inr x \<and> 0 \<le> x"
proof -
  from assms obtain ip gs dd where s: "v = ip @ concat gs @ '','' @ dd" "1 \<le> length ip"
    "so_digitos ip" "\<forall>g \<in> set gs. \<exists>t. g = CHR ''.'' # t \<and> length t = 3 \<and> so_digitos t"
    "so_digitos dd"
    unfolding eh_valor_br_def by blast
  note n = normalizar_valor_br[OF s(3,4,5)]
  have ne: "ip @ concat (map tl gs) \<noteq> []" using s(2) by auto
  have "py_float (normalizar_valor v) =
      Inr (float_de_decimal
        (of_nat (nat_of_digits (ip @ concat (map tl gs))) + of_nat (nat_of_digits dd) / 10 ^ length dd))"
    unfolding s(1) n(1) by (rule py_float_decimal[OF n(2) ne s(5)])
  then show ?thesis by (simp add: float_de_decimal_nonneg)
qed

lemma re_search_SomeD:
  assumes "re_search r s = Some m"
  shows "\<exists>i st. st \<in> set (run r (Map.empty, i, drop i s)) \<and> m = caps st"
proof -
  let ?all = "concat (map (\<lambda>i. run r (Map.empty, i, drop i s)) [0..<Suc (length s)])"
  from assms obtain st sts where a: "?all = st # sts" "m = caps st"
    unfolding re_search_def by (auto split: list.splits)
  then have "st \<in> set ?all" by simp
  then obtain i where "st \<in> set (run r (Map.empty, i, drop i s))"
    by (auto simp del: upt_Suc)
  with a(2) show ?thesis by blast
qed

lemma re_search_foundI:
  assumes "st \<in> set (run r (Map.empty, 0, s))"
  shows "\<exists>m. re_search r s = Some m"
proof -
  have "[0..<Suc (length s)] = 0 # [Suc 0..<Suc (length s)]" by (simp add: upt_rec)
  then have "concat (map (\<lambda>i. run r (Map.empty, i, drop i s)) [0..<Suc (length s)])
     = run r (Map.empty, 0, s) @ concat (map (\<lambda>i. run r (Map.empty, i, drop i s)) [Suc 0..<Suc (length s)])"
    by simp
  moreover from assms obtain x xs where "run r (Map.empty, 0, s) = x # xs"
    by (cases "run r (Map.empty, 0, s)") auto
  ultimately show ?thesis unfolding re_search_def by simp
qed

lemma run_Bol_Seq:
  "st' \<in> set (run (Seq Bol r) (c, i, t)) \<longleftrightarrow> i = 0 \<and> st' \<in> set (run r (c, 0, t))"
  by (auto simp: pos_def)

lemma run_Seq_iff:
  "st' \<in> set (run (Seq a b) st) \<longleftrightarrow> (\<exists>sm \<in> set (run a st). st' \<in> set (run b sm))"
  by auto

lemma sem_grupos_partes [simp]:
  "sem_grupos (digs m n)" "sem_grupos spaces" "sem_grupos lazy_any" "sem_grupos (lit c)"
  "sem_grupos (one_of cs)" "sem_grupos data_dmy" "sem_grupos valor_br" "sem_grupos valor_sicoob"
  by (simp_all add: digs_def dig_def spaces_def lazy_any_def lit_def one_of_def data_dmy_def
      valor_br_def valor_sicoob_def)

lemma simples_partes [simp]:
  "simples (digs m n)" "simples spaces" "simples lazy_any" "simples (lit c)"
  "simples (one_of cs)" "simples data_dmy" "simples valor_br"
  by (simp_all add: digs_def dig_def spaces_def lazy_any_def lit_def one_of_def data_dmy_def
      valor_br_def)

text \<open>The groups of a match of a pattern of the form \<open>^(g1)\s+(g2)\s+(g3) tail\<close>.\<close>

lemma tres_grupos:
  assumes "re_search (Seq Bol (Seq (Grp 1 g1) (Seq spaces (Seq (Grp 2 g2) (Seq spaces
              (Seq (Grp 3 g3) tail)))))) s = Some m"
    and "sem_grupos g1" "sem_grupos g2" "sem_grupos g3" "sem_grupos tail"
  shows "\<exists>w1 w2 w3. m 1 = Some w1 \<and> m 2 = Some w2 \<and> m 3 = Some w3
           \<and> w1 \<in> lang g1 \<and> w2 \<in> lang g2 \<and> w3 \<in> lang g3"
proof -
  from re_search_SomeD[OF assms(1)] obtain i st where
    st: "st \<in> set (run (Seq Bol (Seq (Grp 1 g1) (Seq spaces (Seq (Grp 2 g2) (Seq spaces
              (Seq (Grp 3 g3) tail)))))) (Map.empty, i, drop i s))" "m = caps st"
    by blast
  from st(1) have st0: "st \<in> set (run (Seq (Grp 1 g1) (Seq spaces (Seq (Grp 2 g2) (Seq spaces
              (Seq (Grp 3 g3) tail))))) (Map.empty, 0, drop i s))"
    using run_Bol_Seq[of st _ Map.empty i "drop i s"] by blast
  then obtain s1 where s1: "s1 \<in> set (run (Grp 1 g1) (Map.empty, 0, drop i s))"
    "st \<in> set (run (Seq spaces (Seq (Grp 2 g2) (Seq spaces (Seq (Grp 3 g3) tail)))) s1)"
    unfolding run_Seq_iff[of st "Grp 1 g1"] by blast
  from s1(2) obtain s2 where s2: "s2 \<in> set (run spaces s1)"
    "st \<in> set (run (Seq (Grp 2 g2) (Seq spaces (Seq (Grp 3 g3) tail))) s2)"
    unfolding run_Seq_iff[of st spaces] by blast
  from s2(2) obtain s3 where s3: "s3 \<in> set (run (Grp 2 g2) s2)"
    "st \<in> set (run (Seq spaces (Seq (Grp 3 g3) tail)) s3)"
    unfolding run_Seq_iff[of st "Grp 2 g2"] by blast
  from s3(2) obtain s4 where s4: "s4 \<in> set (run spaces s3)"
    "st \<in> set (run (Seq (Grp 3 g3) tail) s4)"
    unfolding run_Seq_iff[of st spaces] by blast
  from s4(2) obtain s5 where s5: "s5 \<in> set (run (Grp 3 g3) s4)" "st \<in> set (run tail s5)"
    unfolding run_Seq_iff[of st "Grp 3 g3"] by blast
  from run_Grp_sound[OF assms(2) s1(1)] obtain w1 where
    w1: "caps s1 = (caps (Map.empty, 0::nat, drop i s))(1 \<mapsto> w1)" "w1 \<in> lang g1" by blast
  from run_sound[OF _ s2(1)] have c2: "caps s2 = caps s1" by simp
  from run_Grp_sound[OF assms(3) s3(1)] obtain w2 where
    w2: "caps s3 = (caps s2)(2 \<mapsto> w2)" "w2 \<in> lang g2" by blast
  from run_sound[OF _ s4(1)] have c4: "caps s4 = caps s3" by simp
  from run_Grp_sound[OF assms(4) s5(1)] obtain w3 where
    w3: "caps s5 = (caps s4)(3 \<mapsto> w3)" "w3 \<in> lang g3" by blast
  from run_sound[OF assms(5) s5(2)] have c6: "caps st = caps s5" by simp
  have "m = ((Map.empty(1 \<mapsto> w1))(2 \<mapsto> w2))(3 \<mapsto> w3)"
    unfolding st(2) c6 w3(1) c4 w2(1) c2 w1(1) by (simp add: caps_def)
  then have "m 1 = Some w1" "m 2 = Some w2" "m 3 = Some w3" by simp_all
  with w1(2) w2(2) w3(2) show ?thesis by blast
qed

section \<open>Dates\<close>

lemma digit_char_props:
  assumes "k < 10"
  shows "py_isdigit (digit_char k)" "digit_val (digit_char k) = k"
    "digit_char k \<noteq> CHR ''/''" "digit_char k \<noteq> CHR '' ''"
proof -
  have "\<forall>k \<in> set [0..<10]. py_isdigit (digit_char k) \<and> digit_val (digit_char k) = k
      \<and> digit_char k \<noteq> CHR ''/'' \<and> digit_char k \<noteq> CHR '' ''"
    by code_simp
  with assms show "py_isdigit (digit_char k)" "digit_val (digit_char k) = k"
    "digit_char k \<noteq> CHR ''/''" "digit_char k \<noteq> CHR '' ''"
    by auto
qed

lemma py_split_no_sep:
  "sep \<notin> set s \<Longrightarrow> py_split sep (s @ sep # t) = s # py_split sep t"
  "sep \<notin> set s \<Longrightarrow> py_split sep s = [s]"
  by (induction s) (auto split: list.splits)

lemma dois_digitos_props:
  assumes "n < 100"
  shows "\<exists>a b. dois_digitos n = [a, b] \<and> py_isdigit a \<and> py_isdigit b \<and> a \<noteq> CHR '' ''
           \<and> a \<noteq> CHR ''/'' \<and> b \<noteq> CHR ''/''"
    and "nat_of_digits (dois_digitos n) = n"
proof -
  have a: "n div 10 < 10" and b: "n mod 10 < 10" using assms by auto
  show "\<exists>a b. dois_digitos n = [a, b] \<and> py_isdigit a \<and> py_isdigit b \<and> a \<noteq> CHR '' ''
           \<and> a \<noteq> CHR ''/'' \<and> b \<noteq> CHR ''/''"
    using digit_char_props[OF a] digit_char_props[OF b] by (simp add: dois_digitos_def)
  show "nat_of_digits (dois_digitos n) = n"
    using digit_char_props(2)[OF a] digit_char_props(2)[OF b]
    by (simp add: dois_digitos_def nat_of_digits_def)
qed

lemma lin4:
  "(n::nat) = 10 * a + x \<Longrightarrow> a = 10 * b + y \<Longrightarrow> b = 10 * c + z
   \<Longrightarrow> 1000 * c + 100 * z + 10 * y + x = n"
  by simp

lemma quatro_digitos_props:
  assumes "n < 10000"
  shows "list_all py_isdigit (quatro_digitos n)" "length (quatro_digitos n) = 4"
    "CHR ''/'' \<notin> set (quatro_digitos n)" "nat_of_digits (quatro_digitos n) = n"
proof -
  have a: "n div 1000 < 10" and b: "n div 100 mod 10 < 10" and c: "n div 10 mod 10 < 10"
    and d: "n mod 10 < 10" using assms by auto
  note p = digit_char_props[OF a] digit_char_props[OF b] digit_char_props[OF c]
     digit_char_props[OF d]
  show "list_all py_isdigit (quatro_digitos n)" "length (quatro_digitos n) = 4"
    using p by (simp_all add: quatro_digitos_def)
  show "CHR ''/'' \<notin> set (quatro_digitos n)"
    using p by (auto simp: quatro_digitos_def)
  have "nat_of_digits [w, x, y, z] = 1000 * digit_val w + 100 * digit_val x + 10 * digit_val y + digit_val z"
    for w x y z by (simp add: nat_of_digits_def)
  then have "nat_of_digits (quatro_digitos n)
      = 1000 * (n div 1000) + 100 * (n div 100 mod 10) + 10 * (n div 10 mod 10) + n mod 10"
    unfolding quatro_digitos_def by (simp only: p(2,6,10,14))
  also have "\<dots> = n"
  proof -
    have e1: "n = 10 * (n div 10) + n mod 10" by simp
    have e2: "n div 10 = 10 * (n div 10 div 10) + n div 10 mod 10" by simp
    have e3: "n div 10 div 10 = 10 * (n div 10 div 10 div 10) + n div 10 div 10 mod 10" by simp
    have d2: "n div 10 div 10 = n div 100" and d3: "n div 100 div 10 = n div 1000"
      by (simp_all add: div_mult2_eq[symmetric])
    from lin4[OF e1 e2 e3] show ?thesis by (simp only: d2 d3)
  qed
  finally show "nat_of_digits (quatro_digitos n) = n" .
qed

lemma campo_dia_dois: 
  assumes "1 \<le> n" "n \<le> 31" shows "campo_dia (dois_digitos n) = Some n"
proof -
  from assms have "n < 100" by simp
  from dois_digitos_props[OF this] assms show ?thesis
    by (auto simp: campo_dia_def)
qed

lemma campo_mes_dois:
  assumes "1 \<le> n" "n \<le> 12" shows "campo_mes (dois_digitos n) = Some n"
proof -
  from assms have "n < 100" by simp
  from dois_digitos_props[OF this] assms show ?thesis
    by (auto simp: campo_mes_def)
qed

lemma campo_ano_quatro: "n < 10000 \<Longrightarrow> campo_ano (quatro_digitos n) = Some n"
  by (simp add: campo_ano_def quatro_digitos_props)

lemma dias_no_mes_le: "dias_no_mes y m \<le> 31"
  by (simp add: dias_no_mes_def)

lemma data_valida_bounds:
  assumes "data_valida (y, m, d)"
  shows "1 \<le> m" "m \<le> 12" "1 \<le> d" "d \<le> 31" "y < 10000"
  using assms dias_no_mes_le[of y m] by (auto simp: data_valida_def less_eq_prod_def)

lemma strptime_strftime:
  assumes "data_valida d"
  shows "strptime_dmY (strftime_dmY d) = Some d"
proof -
  obtain y m dd where d: "d = (y, m, dd)" by (cases d) auto
  note b = data_valida_bounds[OF assms[unfolded d]]
  have "dd < 100" "m < 100" using b by simp_all
  then have s1: "CHR ''/'' \<notin> set (dois_digitos dd)" "CHR ''/'' \<notin> set (dois_digitos m)"
    using dois_digitos_props(1)[of dd] dois_digitos_props(1)[of m] by auto
  have s2: "CHR ''/'' \<notin> set (quatro_digitos y)"
    using b by (simp add: quatro_digitos_props)
  have "py_split CHR ''/'' (strftime_dmY d) = [dois_digitos dd, dois_digitos m, quatro_digitos y]"
    using s1 s2 by (simp add: d strftime_dmY_def py_split_no_sep)
  then show ?thesis
    using b assms by (simp add: strptime_dmY_def campo_dia_dois campo_mes_dois campo_ano_quatro d)
qed

lemma strptime_valida: "strptime_dmY s = Some d \<Longrightarrow> data_valida d"
  by (auto simp: strptime_dmY_def split: list.splits option.splits if_splits)


section \<open>Properties of the statement parsers\<close>

text \<open>
  Claim C8. A Sicoob line that contains one of the markers \<open>SALDO ANTERIOR\<close>, \<open>TOTAL\<close> or
  \<open>GASTOS DE\<close> yields no transaction, whatever else it contains; the instance below is
  such a line that the transaction pattern matches as well.
\<close>

theorem sicoob_boilerplate_skipped:
  assumes "py_in ''SALDO ANTERIOR'' linha \<or> py_in ''TOTAL'' linha \<or> py_in ''GASTOS DE'' linha"
  shows "linha_sicoob ano linha = Inr []"
  using assms by (auto simp: linha_sicoob_def marcadores_def)

theorem sicoob_boilerplate_skipped_witness:
  "py_in ''TOTAL'' ''05/03 TOTAL 120,00''
   \<and> re_search padrao_sicoob ''05/03 TOTAL 120,00'' \<noteq> None
   \<and> linha_sicoob 2024 ''05/03 TOTAL 120,00'' = Inr []"
proof -
  have h: "py_in ''TOTAL'' ''05/03 TOTAL 120,00''" by code_simp
  have m: "re_search padrao_sicoob ''05/03 TOTAL 120,00'' \<noteq> None" by code_simp
  from h have "py_in ''SALDO ANTERIOR'' ''05/03 TOTAL 120,00''
     \<or> py_in ''TOTAL'' ''05/03 TOTAL 120,00''
     \<or> py_in ''GASTOS DE'' ''05/03 TOTAL 120,00''" by simp
  from sicoob_boilerplate_skipped [OF this] h m show ?thesis by simp
qed

text \<open>
  Claim C7. A line that the primary Santander pattern does not match and the
  negative-amount pattern does match yields no transaction.
\<close>

theorem santander_negative_skipped:
  assumes "re_search padrao_santander linha = None"
    and "re_search padrao_negativo linha \<noteq> None"
  shows "linha_santander linha = Inr []"
  using assms by (auto simp: linha_santander_def split: option.splits)

theorem santander_negative_skipped_witness:
  "re_search padrao_santander ''01/03/2024 ESTORNO -45,90'' = None
   \<and> re_search padrao_negativo ''01/03/2024 ESTORNO -45,90'' \<noteq> None
   \<and> linha_santander ''01/03/2024 ESTORNO -45,90'' = Inr []"
proof -
  have a: "re_search padrao_santander ''01/03/2024 ESTORNO -45,90'' = None" by code_simp
  have b: "re_search padrao_negativo ''01/03/2024 ESTORNO -45,90'' \<noteq> None" by code_simp
  from santander_negative_skipped [OF a b] a b show ?thesis by simp
qed

text \<open>
  Claim C10. The Sicoob parser is not total: on the line \<open>01/02 LOJA ,123,45\<close> the
  amount token \<open>,123,45\<close> is matched, the two replacements turn it into \<open>.123.45\<close>, and
  \<open>float\<close> raises ValueError, which \<open>processar_formato_sicoob\<close> does not catch.
\<close>

theorem sicoob_comma_sign_raises:
  "processar_formato_sicoob ''01/02 LOJA ,123,45'' 2024 = Inl ValueError"
  by code_simp

lemma padrao_santander_forma:
  "padrao_santander = Seq Bol (Seq (Grp 1 data_dmy) (Seq spaces (Seq (Grp 2 lazy_any) (Seq spaces
      (Seq (Grp 3 valor_br) (Seq spaces (Seq valor_br (Seq spaces (Seq (digs 1 3)
         (Rep 0 None True (Seq (one_of ''.,'') (digs 3 3))))))))))))"
  by (simp add: padrao_santander_def)

lemma padrao_sicoob_forma:
  "padrao_sicoob = Seq Bol (Seq (Grp 1 (seqs [digs 2 2, lit CHR ''/'', digs 2 2])) (Seq spaces
      (Seq (Grp 2 lazy_any) (Seq spaces (Seq (Grp 3 valor_sicoob) Eol)))))"
  by (simp add: padrao_sicoob_def)

lemma santander_emits:
  assumes "re_search padrao_santander linha = Some m"
  shows "\<exists>d desc v x. m 1 = Some d \<and> m 2 = Some desc \<and> m 3 = Some v
      \<and> eh_data_dmy d \<and> eh_descricao desc \<and> eh_valor_br v
      \<and> py_float (normalizar_valor v) = Inr x \<and> 0 \<le> x
      \<and> linha_santander linha =
          Inr (if 0 < x then [\<lparr>Data = d, Descricao = py_strip desc, Valor = x,
                                Observacao = py_strip desc\<rparr>] else [])"
proof -
  from tres_grupos[OF assms[unfolded padrao_santander_forma]]
  obtain d desc v where g: "m 1 = Some d" "m 2 = Some desc" "m 3 = Some v"
    "d \<in> lang data_dmy" "desc \<in> lang lazy_any" "v \<in> lang valor_br"
    by auto
  have sh: "eh_data_dmy d" "eh_descricao desc" "eh_valor_br v"
    using g(4,5,6) lang_data_dmy_D lang_valor_br_D by (auto simp: lang_lazy_any)
  from valor_br_float[OF sh(3)] obtain x where x: "py_float (normalizar_valor v) = Inr x" "0 \<le> x"
    by blast
  have "linha_santander linha =
          Inr (if 0 < x then [\<lparr>Data = d, Descricao = py_strip desc, Valor = x,
                                Observacao = py_strip desc\<rparr>] else [])"
    using assms g(1,2,3) x(1) by (simp add: linha_santander_def)
  with g(1,2,3) sh x show ?thesis by blast
qed



lemma santander_never_raises: "\<exists>ts. linha_santander linha = Inr ts"
proof (cases "re_search padrao_santander linha")
  case None
  then have "linha_santander linha = Inr []"
    unfolding linha_santander_def by (cases "re_search padrao_negativo linha") simp_all
  then show ?thesis by blast
next
  case (Some m)
  from santander_emits[OF Some] obtain ts where "linha_santander linha = Inr ts" by blast
  then show ?thesis ..
qed

text \<open>
  On a text of one stripped, non-empty line the parsers do what their loop bodies do on
  that line.
\<close>

lemma percorrer_uma: "percorrer f [l] = f l"
  by (cases "f l") simp_all

lemma linhas_de_uma:
  assumes "CHR 0x0A \<notin> set linha" "py_strip linha = linha" "linha \<noteq> []"
  shows "linhas_de linha = [linha]"
  using assms by (simp add: linhas_de_def py_split_no_sep(2))

lemma processar_uma_linha:
  assumes "CHR 0x0A \<notin> set linha" "py_strip linha = linha" "linha \<noteq> []"
  shows "processar_formato_santander linha = linha_santander linha"
    and "processar_formato_sicoob linha ano = linha_sicoob ano linha"
  unfolding processar_formato_santander_def processar_formato_sicoob_def linhas_de_uma[OF assms]
  by (rule percorrer_uma)+

lemma str_nat_um: "n < 10 \<Longrightarrow> str_nat n = [digit_char n]"
  by (subst str_nat.simps) simp

lemma str_nat_passo: "10 \<le> n \<Longrightarrow> str_nat n = str_nat (n div 10) @ [digit_char (n mod 10)]"
  by (subst str_nat.simps) simp

lemma str_nat_quatro:
  assumes "1000 \<le> n" "n < 10000"
  shows "str_nat n = quatro_digitos n"
proof -
  have d: "n div 10 div 10 = n div 100" "n div 100 div 10 = n div 1000"
    by (simp_all add: div_mult2_eq[symmetric])
  have b: "10 \<le> n" "10 \<le> n div 10" "10 \<le> n div 100" "n div 1000 < 10"
    using assms by simp_all
  have "str_nat n = str_nat (n div 10) @ [digit_char (n mod 10)]"
    by (rule str_nat_passo[OF b(1)])
  also have "str_nat (n div 10) = str_nat (n div 100) @ [digit_char (n div 10 mod 10)]"
    using str_nat_passo[OF b(2)] by (simp only: d)
  also have "str_nat (n div 100) = str_nat (n div 1000) @ [digit_char (n div 100 mod 10)]"
    using str_nat_passo[OF b(3)] by (simp only: d)
  also have "str_nat (n div 1000) = [digit_char (n div 1000)]"
    by (rule str_nat_um[OF b(4)])
  finally show ?thesis by (simp add: quatro_digitos_def)
qed

lemma py_str_quatro:
  assumes "1000 \<le> ano" "ano \<le> 9999"
  shows "py_str ano = quatro_digitos (nat ano)" "length (py_str ano) = 4" "so_digitos (py_str ano)"
proof -
  have n: "1000 \<le> nat ano" "nat ano < 10000" using assms by simp_all
  show e: "py_str ano = quatro_digitos (nat ano)"
    using assms str_nat_quatro[OF n] by (simp add: py_str_def)
  show "length (py_str ano) = 4" "so_digitos (py_str ano)"
    unfolding e using quatro_digitos_props[OF n(2)] by (simp_all add: so_digitos_def)
qed

lemma sicoob_match:
  assumes "re_search padrao_sicoob linha = Some m"
  shows "\<exists>d desc v. m 1 = Some d \<and> m 2 = Some desc \<and> m 3 = Some v
      \<and> eh_dia_mes d \<and> eh_descricao desc"
proof -
  from tres_grupos[OF assms[unfolded padrao_sicoob_forma]]
  obtain d desc v where g: "m 1 = Some d" "m 2 = Some desc" "m 3 = Some v"
    "d \<in> lang (seqs [digs 2 2, lit CHR ''/'', digs 2 2])" "desc \<in> lang lazy_any"
    using sem_grupos_partes by (simp only: sem_grupos.simps seqs.simps) blast
  have "eh_dia_mes d" "eh_descricao desc"
    using g(4,5) lang_dia_mes_D by (auto simp: lang_lazy_any)
  with g(1,2,3) show ?thesis by blast
qed

text \<open>
  Claim C2, as amended. For a line that contains none of the markers and that the Sicoob
  pattern matches, the three groups are set and the first is \<open>DD/MM\<close>; if \<open>float\<close>
  accepts the normalized amount token, the line yields exactly one transaction dated
  \<open>DD/MM/\<close> followed by the year when the value is positive, and none otherwise; for a
  year of four digits the date has the form \<open>DD/MM/YYYY\<close>. The line
  \<open>05/03 MERCADO LIVRE 120,00\<close> with year 2024 yields the transaction of 05/03/2024,
  \<open>MERCADO LIVRE\<close>, 120.00. (A line with a marker is skipped even when the pattern
  matches it: see the counterexample.)
\<close>

theorem sicoob_emits:
  assumes "\<not> py_in ''SALDO ANTERIOR'' linha" "\<not> py_in ''TOTAL'' linha"
    "\<not> py_in ''GASTOS DE'' linha"
    and "re_search padrao_sicoob linha = Some m"
  shows "(\<exists>data_str descricao valor_str.
            m 1 = Some data_str \<and> m 2 = Some descricao \<and> m 3 = Some valor_str
          \<and> eh_dia_mes data_str
          \<and> (1000 \<le> ano \<and> ano \<le> 9999 \<longrightarrow> eh_data_dmy (data_str @ ''/'' @ py_str ano))
          \<and> (\<forall>valor. py_float (normalizar_valor valor_str) = Inr valor \<longrightarrow>
                linha_sicoob ano linha =
                  Inr (if 0 < valor
                       then [\<lparr>Data = data_str @ ''/'' @ py_str ano,
                              Descricao = py_strip descricao, Valor = valor,
                              Observacao = py_strip descricao\<rparr>]
                       else [])))
    \<and> processar_formato_sicoob ''05/03 MERCADO LIVRE 120,00'' 2024 =
        Inr [\<lparr>Data = ''05/03/2024'', Descricao = ''MERCADO LIVRE'', Valor = 120,
              Observacao = ''MERCADO LIVRE''\<rparr>]"
proof
  from sicoob_match[OF assms(4)] obtain d desc v where
    g: "m 1 = Some d" "m 2 = Some desc" "m 3 = Some v" "eh_dia_mes d" by blast
  have a: "eh_data_dmy (d @ ''/'' @ py_str ano)" if "1000 \<le> ano" "ano \<le> 9999"
  proof -
    from g(4) obtain dd mm where d: "d = dd @ ''/'' @ mm" "length dd = 2" "length mm = 2"
      "so_digitos dd" "so_digitos mm" unfolding eh_dia_mes_def by blast
    have "d @ ''/'' @ py_str ano = dd @ ''/'' @ mm @ ''/'' @ py_str ano" by (simp add: d(1))
    with d(2-5) py_str_quatro(2,3)[OF that] show ?thesis
      unfolding eh_data_dmy_def by blast
  qed
  have b: "linha_sicoob ano linha =
                  Inr (if 0 < valor
                       then [\<lparr>Data = d @ ''/'' @ py_str ano,
                              Descricao = py_strip desc, Valor = valor,
                              Observacao = py_strip desc\<rparr>]
                       else [])" if "py_float (normalizar_valor v) = Inr valor" for valor
    using assms g(1,2,3) that by (simp add: linha_sicoob_def marcadores_def)
  from g a b
  show "\<exists>data_str descricao valor_str.
            m 1 = Some data_str \<and> m 2 = Some descricao \<and> m 3 = Some valor_str
          \<and> eh_dia_mes data_str
          \<and> (1000 \<le> ano \<and> ano \<le> 9999 \<longrightarrow> eh_data_dmy (data_str @ ''/'' @ py_str ano))
          \<and> (\<forall>valor. py_float (normalizar_valor valor_str) = Inr valor \<longrightarrow>
                linha_sicoob ano linha =
                  Inr (if 0 < valor
                       then [\<lparr>Data = data_str @ ''/'' @ py_str ano,
                              Descricao = py_strip descricao, Valor = valor,
                              Observacao = py_strip descricao\<rparr>]
                       else []))"
    by blast
  show "processar_formato_sicoob ''05/03 MERCADO LIVRE 120,00'' 2024 =
        Inr [\<lparr>Data = ''05/03/2024'', Descricao = ''MERCADO LIVRE'', Valor = 120,
              Observacao = ''MERCADO LIVRE''\<rparr>]"
    by code_simp
qed

theorem sicoob_emits_witness:
  "\<not> py_in ''SALDO ANTERIOR'' ''05/03 MERCADO LIVRE 120,00''
   \<and> \<not> py_in ''TOTAL'' ''05/03 MERCADO LIVRE 120,00''
   \<and> \<not> py_in ''GASTOS DE'' ''05/03 MERCADO LIVRE 120,00''
   \<and> (\<exists>m. re_search padrao_sicoob ''05/03 MERCADO LIVRE 120,00'' = Some m
        \<and> m 1 = Some ''05/03'' \<and> m 3 = Some ''120,00'')
   \<and> py_float (normalizar_valor ''120,00'') = Inr 120
   \<and> linha_sicoob 2024 ''05/03 MERCADO LIVRE 120,00'' =
        Inr [\<lparr>Data = ''05/03/2024'', Descricao = ''MERCADO LIVRE'', Valor = 120,
              Observacao = ''MERCADO LIVRE''\<rparr>]"
proof -
  let ?l = "''05/03 MERCADO LIVRE 120,00''"
  have h: "\<not> py_in ''SALDO ANTERIOR'' ?l" "\<not> py_in ''TOTAL'' ?l" "\<not> py_in ''GASTOS DE'' ?l"
    by code_simp+
  have "map_option (\<lambda>m. (m 1, m 2, m 3)) (re_search padrao_sicoob ?l)
      = Some (Some ''05/03'', Some ''MERCADO LIVRE'', Some ''120,00'')"
    by code_simp
  then obtain m where m: "re_search padrao_sicoob ?l = Some m" "m 1 = Some ''05/03''"
    "m 2 = Some ''MERCADO LIVRE''" "m 3 = Some ''120,00''"
    by auto
  have f: "py_float (normalizar_valor ''120,00'') = Inr 120" by code_simp
  have s: "py_strip ''MERCADO LIVRE'' = ''MERCADO LIVRE''" "''05/03'' @ ''/'' @ py_str 2024 = ''05/03/2024''"
    by code_simp+
  from sicoob_emits [OF h m(1), of 2024] m(2,3,4) f s
  have "linha_sicoob 2024 ?l =
        Inr [\<lparr>Data = ''05/03/2024'', Descricao = ''MERCADO LIVRE'', Valor = 120,
              Observacao = ''MERCADO LIVRE''\<rparr>]"
    by auto
  with h m f show ?thesis by blast
qed

theorem sicoob_emits_counterexample:
  "map_option (\<lambda>m. (m 1, m 2, m 3)) (re_search padrao_sicoob ''05/03 TOTAL 120,00'')
       = Some (Some ''05/03'', Some ''TOTAL'', Some ''120,00'')
   \<and> py_float (normalizar_valor ''120,00'') = Inr 120
   \<and> processar_formato_sicoob ''05/03 TOTAL 120,00'' 2024 = Inr []"
  by code_simp

text \<open>
  The strings that the two parsers hand to \<open>float\<close> consist of digits, \<open>-\<close> and \<open>.\<close>
  only, the alphabet on which \<open>py_float\<close> is Python's \<open>float\<close>.
\<close>

lemma list_all_py_replace:
  "list_all Q n \<Longrightarrow> list_all (\<lambda>x. x \<noteq> c \<longrightarrow> Q x) s \<Longrightarrow> list_all Q (py_replace c n s)"
  by (induction s) (simp_all add: py_replace_def)

lemma list_all_normalizar_valor:
  assumes "list_all (\<lambda>x. py_isdigit x \<or> x = CHR ''-'' \<or> x = CHR '','' \<or> x = CHR ''.'') v"
  shows "list_all (\<lambda>x. py_isdigit x \<or> x = CHR ''-'' \<or> x = CHR ''.'') (normalizar_valor v)"
proof -
  have 1: "list_all (\<lambda>x. py_isdigit x \<or> x = CHR ''-'' \<or> x = CHR '','')
      (py_replace CHR ''.'' [] v)"
    by (rule list_all_py_replace) (use assms in \<open>simp_all add: list_all_iff\<close>, blast)
  show ?thesis
    unfolding normalizar_valor_def
    by (rule list_all_py_replace) (use 1 in \<open>simp_all add: list_all_iff\<close>, blast)
qed

lemma lang_valor_sicoob_chars:
  assumes "v \<in> lang valor_sicoob"
  shows "list_all (\<lambda>x. py_isdigit x \<or> x = CHR ''-'' \<or> x = CHR '','' \<or> x = CHR ''.'') v"
proof -
  let ?Q = "\<lambda>x. py_isdigit x \<or> x = CHR ''-'' \<or> x = CHR '','' \<or> x = CHR ''.''"
  from assms obtain a b c d e where v: "v = a @ b @ c @ d @ e"
    "a \<in> lang (Rep 0 (Some 1) True (one_of ''-,''))" "b \<in> lang (digs 1 3)"
    "c \<in> lang (Rep 0 None False (Seq (lit CHR ''.'') (digs 3 3)))"
    "d \<in> lang (one_of ''.,'')" "e \<in> lang (digs 2 2)"
    unfolding valor_sicoob_def seqs.simps lang_Seq_iff by blast
  have dg: "list_all ?Q s" if "so_digitos s" for s
    using that by (simp add: so_digitos_def list_all_iff)
  have a: "list_all ?Q a"
    using v(2) unfolding one_of_def lang_Rep_Cls by (simp add: list_all_iff) blast
  have b: "list_all ?Q b" and e: "list_all ?Q e"
    using v(3,6) dg by (simp_all add: lang_digs)
  from v(4) obtain gs where gs: "c = concat gs" "set gs \<subseteq> lang (Seq (lit CHR ''.'') (digs 3 3))"
    by auto
  have "\<forall>g \<in> set gs. list_all ?Q g"
  proof
    fix g assume "g \<in> set gs"
    with gs(2) have "g \<in> lang (Seq (lit CHR ''.'') (digs 3 3))" by blast
    then obtain t where "g = CHR ''.'' # t" "so_digitos t"
      unfolding lang_Seq_iff lang_lit lang_digs by auto
    with dg[of t] show "list_all ?Q g" by simp
  qed
  then have c: "list_all ?Q c" unfolding gs(1) by (simp add: list_all_iff)
  from v(5) obtain x where "d = [x]" "x = CHR ''.'' \<or> x = CHR '',''"
    by (auto simp: one_of_def)
  then have d: "list_all ?Q d" by auto
  from a b c d e show ?thesis unfolding v(1) by simp
qed

lemma sicoob_float_alfabeto:
  assumes "re_search padrao_sicoob linha = Some m" "m 3 = Some v"
  shows "list_all (\<lambda>x. py_isdigit x \<or> x = CHR ''-'' \<or> x = CHR ''.'') (normalizar_valor v)"
proof -
  have "\<exists>w1 w2 w3. m 1 = Some w1 \<and> m 2 = Some w2 \<and> m 3 = Some w3
           \<and> w1 \<in> lang (Seq (digs 2 2) (Seq (lit CHR ''/'') (digs 2 2))) \<and> w2 \<in> lang lazy_any
           \<and> w3 \<in> lang valor_sicoob"
    by (rule tres_grupos[OF assms(1)[unfolded padrao_sicoob_forma seqs.simps]]) simp_all
  with assms(2) have "v \<in> lang valor_sicoob" by auto
  from list_all_normalizar_valor[OF lang_valor_sicoob_chars[OF this]]
  show ?thesis .
qed

lemma run_SeqI: "sm \<in> set (run a st) \<Longrightarrow> st' \<in> set (run b sm) \<Longrightarrow> st' \<in> set (run (Seq a b) st)"
  by auto

lemma lang_digs_I: "so_digitos t \<Longrightarrow> m \<le> length t \<Longrightarrow> length t \<le> n \<Longrightarrow> t \<in> lang (digs m n)"
  by (simp add: lang_digs)

lemma lang_spaces_I: "eh_espacos e \<Longrightarrow> e \<in> lang spaces"
  by (simp add: lang_spaces)

lemma lang_lazy_any_I: "eh_descricao e \<Longrightarrow> e \<in> lang lazy_any"
  by (simp add: lang_lazy_any)

lemma santander_completo:
  assumes "eh_data_dmy d" "eh_espacos e1" "eh_descricao desc" "eh_espacos e2" "eh_valor_br v1"
    "eh_espacos e3" "eh_valor_br v2" "eh_espacos e4" "so_digitos t" "1 \<le> length t" "length t \<le> 3"
  shows "\<exists>m. re_search padrao_santander (d @ e1 @ desc @ e2 @ v1 @ e3 @ v2 @ e4 @ t @ resto) = Some m"
proof -
  let ?c1 = "Map.empty(1 \<mapsto> d)"
  let ?c2 = "?c1(2 \<mapsto> desc)"
  let ?c3 = "?c2(3 \<mapsto> v1)"
  let ?p1 = "0 + length d"
  let ?p2 = "?p1 + length e1"
  let ?p3 = "?p2 + length desc"
  let ?p4 = "?p3 + length e2"
  let ?p5 = "?p4 + length v1"
  let ?p6 = "?p5 + length e3"
  let ?p7 = "?p6 + length v2"
  let ?p8 = "?p7 + length e4"
  let ?p9 = "?p8 + length t"
  let ?fim = "Rep 0 None True (Seq (one_of ''.,'') (digs 3 3))"
  have s_fim: "simples ?fim" by (simp add: one_of_def lang_digs)
  have "[] \<in> lang ?fim" by (simp only: lang.simps mem_Collect_eq) (rule exI[of _ "[]"], simp)
  from run_complete[OF s_fim this, of ?c3 ?p9 resto]
  have r10: "(?c3, ?p9, resto) \<in> set (run ?fim (?c3, ?p9, resto))" by simp
  have r9: "(?c3, ?p9, resto) \<in> set (run (digs 1 3) (?c3, ?p8, t @ resto))"
    by (rule run_complete[OF simples_partes(1) lang_digs_I[OF assms(9,10,11)]])
  have r8: "(?c3, ?p8, t @ resto) \<in> set (run spaces (?c3, ?p7, e4 @ t @ resto))"
    by (rule run_complete[OF simples_partes(2) lang_spaces_I[OF assms(8)]])
  have r7: "(?c3, ?p7, e4 @ t @ resto) \<in> set (run valor_br (?c3, ?p6, v2 @ e4 @ t @ resto))"
    by (rule run_complete[OF simples_partes(7) lang_valor_br_I[OF assms(7)]])
  have r6: "(?c3, ?p6, v2 @ e4 @ t @ resto) \<in> set (run spaces (?c3, ?p5, e3 @ v2 @ e4 @ t @ resto))"
    by (rule run_complete[OF simples_partes(2) lang_spaces_I[OF assms(6)]])
  have r5: "(?c3, ?p5, e3 @ v2 @ e4 @ t @ resto)
      \<in> set (run (Grp 3 valor_br) (?c2, ?p4, v1 @ e3 @ v2 @ e4 @ t @ resto))"
    by (rule run_Grp_complete[OF simples_partes(7) lang_valor_br_I[OF assms(5)]])
  have r4: "(?c2, ?p4, v1 @ e3 @ v2 @ e4 @ t @ resto)
      \<in> set (run spaces (?c2, ?p3, e2 @ v1 @ e3 @ v2 @ e4 @ t @ resto))"
    by (rule run_complete[OF simples_partes(2) lang_spaces_I[OF assms(4)]])
  have r3: "(?c2, ?p3, e2 @ v1 @ e3 @ v2 @ e4 @ t @ resto)
      \<in> set (run (Grp 2 lazy_any) (?c1, ?p2, desc @ e2 @ v1 @ e3 @ v2 @ e4 @ t @ resto))"
    by (rule run_Grp_complete[OF simples_partes(3) lang_lazy_any_I[OF assms(3)]])
  have r2: "(?c1, ?p2, desc @ e2 @ v1 @ e3 @ v2 @ e4 @ t @ resto)
      \<in> set (run spaces (?c1, ?p1, e1 @ desc @ e2 @ v1 @ e3 @ v2 @ e4 @ t @ resto))"
    by (rule run_complete[OF simples_partes(2) lang_spaces_I[OF assms(2)]])
  have r1: "(?c1, ?p1, e1 @ desc @ e2 @ v1 @ e3 @ v2 @ e4 @ t @ resto)
      \<in> set (run (Grp 1 data_dmy) (Map.empty, 0, d @ e1 @ desc @ e2 @ v1 @ e3 @ v2 @ e4 @ t @ resto))"
    by (rule run_Grp_complete[OF simples_partes(6) lang_data_dmy_I[OF assms(1)]])
  note chain = run_SeqI[OF r1 run_SeqI[OF r2 run_SeqI[OF r3 run_SeqI[OF r4 run_SeqI[OF r5
      run_SeqI[OF r6 run_SeqI[OF r7 run_SeqI[OF r8 run_SeqI[OF r9 r10]]]]]]]]]
  have "(?c3, ?p9, resto) \<in> set (run padrao_santander
      (Map.empty, 0, d @ e1 @ desc @ e2 @ v1 @ e3 @ v2 @ e4 @ t @ resto))"
    unfolding padrao_santander_forma run_Bol_Seq using chain by simp
  then show ?thesis by (rule re_search_foundI)
qed

text \<open>
  Claim C6, as amended. A line that consists of a date \<open>DD/MM/YYYY\<close>, white space, a
  description, white space, an amount, white space, a second amount, white space and a
  third token that begins with one to three digits (followed by anything) is matched by
  the primary Santander pattern, and yields one transaction when the captured amount is
  positive. One further amount after the primary one is not enough: see the
  counterexample.
\<close>

theorem santander_grammar_matches:
  assumes "linha = d @ e1 @ desc @ e2 @ v1 @ e3 @ v2 @ e4 @ t @ resto"
    and "eh_data_dmy d" "eh_espacos e1" "eh_descricao desc" "eh_espacos e2" "eh_valor_br v1"
    and "eh_espacos e3" "eh_valor_br v2" "eh_espacos e4"
    and "so_digitos t" "1 \<le> length t" "length t \<le> 3"
  shows "\<exists>m data_completa descricao valor_str valor.
           re_search padrao_santander linha = Some m
         \<and> m 1 = Some data_completa \<and> m 2 = Some descricao \<and> m 3 = Some valor_str
         \<and> py_float (normalizar_valor valor_str) = Inr valor
         \<and> linha_santander linha =
             Inr (if 0 < valor
                  then [\<lparr>Data = data_completa, Descricao = py_strip descricao, Valor = valor,
                         Observacao = py_strip descricao\<rparr>]
                  else [])"
proof -
  from santander_completo[OF assms(2-12), of resto] obtain m where
    m: "re_search padrao_santander linha = Some m" unfolding assms(1) by blast
  from santander_emits[OF m] m show ?thesis by blast
qed

theorem santander_grammar_matches_witness:
  "eh_data_dmy ''01/03/2024'' \<and> eh_espacos '' '' \<and> eh_descricao ''LOJA'' \<and> eh_valor_br ''1.234,56''
   \<and> eh_valor_br ''250,00'' \<and> so_digitos ''5''
   \<and> (\<exists>m. re_search padrao_santander ''01/03/2024 LOJA 1.234,56 250,00 5,1234'' = Some m
         \<and> m 3 = Some ''1.234,56'')
   \<and> linha_santander ''01/03/2024 LOJA 1.234,56 250,00 5,1234'' =
        Inr [\<lparr>Data = ''01/03/2024'', Descricao = ''LOJA'', Valor = 30864 / 25,
              Observacao = ''LOJA''\<rparr>]"
proof -
  let ?l = "''01/03/2024 LOJA 1.234,56 250,00 5,1234''"
  have dg: "so_digitos ''01''" "so_digitos ''03''" "so_digitos ''2024''" "so_digitos ''1''"
    "so_digitos ''234''" "so_digitos ''56''" "so_digitos ''250''" "so_digitos ''00''"
    "so_digitos ''5''"
    by (simp_all add: so_digitos_def py_isdigit_def)
  have h1: "eh_data_dmy ''01/03/2024''"
    unfolding eh_data_dmy_def
    by (rule exI[of _ "''01''"], rule exI[of _ "''03''"], rule exI[of _ "''2024''"])
       (simp add: dg)
  have h2: "eh_espacos '' ''" by (simp add: eh_espacos_def py_isspace_def)
  have h3: "eh_descricao ''LOJA''" by (simp add: eh_descricao_def)
  have h4: "eh_valor_br ''1.234,56''"
    unfolding eh_valor_br_def
    by (rule exI[of _ "''1''"], rule exI[of _ "[''.234'']"], rule exI[of _ "''56''"])
       (simp add: dg)
  have h5: "eh_valor_br ''250,00''"
    unfolding eh_valor_br_def
    by (rule exI[of _ "''250''"], rule exI[of _ "[]"], rule exI[of _ "''00''"])
       (simp add: dg)
  have e: "?l = ''01/03/2024'' @ '' '' @ ''LOJA'' @ '' '' @ ''1.234,56'' @ '' '' @ ''250,00''
      @ '' '' @ ''5'' @ '',1234''" by simp
  have g: "map_option (\<lambda>m. (m 1, m 2, m 3)) (re_search padrao_santander ?l)
      = Some (Some ''01/03/2024'', Some ''LOJA'', Some ''1.234,56'')"
    by code_simp
  have f: "py_float (normalizar_valor ''1.234,56'') = Inr (30864 / 25)" by code_simp
  have s: "py_strip ''LOJA'' = ''LOJA''" by code_simp
  from santander_grammar_matches [OF e h1 h2 h3 h2 h4 h2 h5 h2 dg(9)]
  obtain m dc ds vs x where r: "re_search padrao_santander ?l = Some m"
    "m 1 = Some dc" "m 2 = Some ds" "m 3 = Some vs" "py_float (normalizar_valor vs) = Inr x"
    "linha_santander ?l = Inr (if 0 < x then [\<lparr>Data = dc, Descricao = py_strip ds, Valor = x,
                         Observacao = py_strip ds\<rparr>] else [])"
    by auto
  from g r(1-4) have v: "dc = ''01/03/2024''" "ds = ''LOJA''" "vs = ''1.234,56''" by auto
  from r(5) f v have x: "x = 30864 / 25" by simp
  from r(6) v x s have "linha_santander ?l =
        Inr [\<lparr>Data = ''01/03/2024'', Descricao = ''LOJA'', Valor = 30864 / 25,
              Observacao = ''LOJA''\<rparr>]" by simp
  with h1 h2 h3 h4 h5 dg(9) r(1,4) v(3) show ?thesis by blast
qed

theorem santander_grammar_matches_counterexample:
  "eh_data_dmy ''01/03/2024'' \<and> eh_descricao ''UBER TRIP'' \<and> eh_valor_br ''45,90''
   \<and> eh_valor_br ''9,18''
   \<and> re_search padrao_santander ''01/03/2024 UBER TRIP 45,90 9,18'' = None
   \<and> processar_formato_santander ''01/03/2024 UBER TRIP 45,90 9,18'' = Inr []"
proof -
  have dg: "so_digitos ''01''" "so_digitos ''03''" "so_digitos ''2024''" "so_digitos ''45''"
    "so_digitos ''90''" "so_digitos ''9''" "so_digitos ''18''"
    by (simp_all add: so_digitos_def py_isdigit_def)
  have h1: "eh_data_dmy ''01/03/2024''"
    unfolding eh_data_dmy_def
    by (rule exI[of _ "''01''"], rule exI[of _ "''03''"], rule exI[of _ "''2024''"])
       (simp add: dg)
  have h3: "eh_descricao ''UBER TRIP''" by (simp add: eh_descricao_def)
  have h4: "eh_valor_br ''45,90''"
    unfolding eh_valor_br_def
    by (rule exI[of _ "''45''"], rule exI[of _ "[]"], rule exI[of _ "''90''"])
       (simp add: dg)
  have h5: "eh_valor_br ''9,18''"
    unfolding eh_valor_br_def
    by (rule exI[of _ "''9''"], rule exI[of _ "[]"], rule exI[of _ "''18''"])
       (simp add: dg)
  have n: "re_search padrao_santander ''01/03/2024 UBER TRIP 45,90 9,18'' = None" by code_simp
  have p: "processar_formato_santander ''01/03/2024 UBER TRIP 45,90 9,18'' = Inr []" by code_simp
  from h1 h3 h4 h5 n p show ?thesis by blast
qed

section \<open>Properties of the output table\<close>

subsection \<open>The row of a transaction\<close>

lemma map_of_vazias:
  "map_of (foldl (\<lambda>l coluna. AList.update coluna v l) l0 cols) c =
     (if c \<in> set cols then Some v else map_of l0 c)"
  by (induction cols arbitrary: l0) (auto simp: update_conv')

lemma map_of_preencher:
  "map_of (preencher cs v l) c =
     (case cs of [] \<Rightarrow> map_of l c | c' # _ \<Rightarrow> if c = c' then Some v else map_of l c)"
  by (auto simp: preencher_def update_conv' split: list.splits)

lemma colunas_com_primeira:
  "(case colunas_com palavras cols of [] \<Rightarrow> None | c # _ \<Rightarrow> Some c) = primeira_coluna palavras cols"
  unfolding colunas_com_def primeira_coluna_def
  by (induction cols) (auto simp: list_ex_iff)

lemma celula_alinhar:
  "c \<in> set cols \<Longrightarrow> celula c (alinhar cols l) = (case map_of l c of None \<Rightarrow> NA | Some v \<Rightarrow> v)"
  by (simp add: celula_def alinhar_def map_of_map_restrict)

lemma primeiro_nome_find:
  "primeiro_nome nomes cols = find (\<lambda>nome. nome \<in> set cols) nomes"
  by (induction nomes) auto

lemma identificar_in: "cols \<noteq> [] \<Longrightarrow> identificar_coluna_data cols \<in> set cols"
  by (auto simp: identificar_coluna_data_def primeiro_nome_find split: option.splits list.splits dest: find_Some_iff[THEN iffD1])

lemma celula_nova_linha:
  assumes "c \<in> set cols"
  shows "celula c (alinhar cols (nova_linha cols item)) =
    (if primeira_coluna palavras_observacao cols = Some c then Str (Observacao item)
     else if primeira_coluna palavras_valor cols = Some c then Num (Valor item)
     else if primeira_coluna palavras_descricao cols = Some c then Str (Descricao item)
     else if identificar_coluna_data cols = c then Str (Data item)
     else Str [])"
  using assms
  by (auto simp: celula_alinhar nova_linha_def Let_def map_of_preencher map_of_vazias update_conv'
        colunas_com_primeira[symmetric] split: list.splits)

text \<open>
  Claim C9. For a non-empty column list the row built for a transaction has exactly the
  columns of the list, in their order. The date goes to the first of the names \<open>Data\<close>,
  \<open>Data Vencimento\<close>, \<open>Data_Vencimento\<close>, \<open>Dt_Vencimento\<close>, \<open>Date\<close> that is a column, or
  to the first column when none is. Description, value and note go to the first column
  whose lowercased name contains one of the role's keywords; a role without such a
  column is left out. The assignments are made in the order date, description, value,
  note, so every cell holds the value of the last role assigned to its column, or the
  empty string. The columns \<open>Data Vencimento\<close>, \<open>Descricao Completa\<close>, \<open>Valor Total\<close>,
  \<open>Obs\<close> and the transaction of 05/03/2024 give the row of the specification.
\<close>

theorem projecao_da_linha:
  assumes "colunas \<noteq> []"
  shows "map fst (alinhar colunas (nova_linha colunas item)) = colunas
    \<and> identificar_coluna_data colunas =
        (case find (\<lambda>nome. nome \<in> set colunas) possiveis_nomes of
           Some nome \<Rightarrow> nome | None \<Rightarrow> hd colunas)
    \<and> (\<forall>c \<in> set colunas.
          celula c (alinhar colunas (nova_linha colunas item)) =
            (if primeira_coluna palavras_observacao colunas = Some c then Str (Observacao item)
             else if primeira_coluna palavras_valor colunas = Some c then Num (Valor item)
             else if primeira_coluna palavras_descricao colunas = Some c then Str (Descricao item)
             else if identificar_coluna_data colunas = c then Str (Data item)
             else Str []))
    \<and> montar_tabela [''Data Vencimento'', ''Descricao Completa'', ''Valor Total'', ''Obs'']
          [\<lparr>Data = ''05/03/2024'', Descricao = ''MERCADO LIVRE'', Valor = 120,
            Observacao = ''MERCADO LIVRE''\<rparr>]
        = [[(''Data Vencimento'', Str ''05/03/2024''), (''Descricao Completa'', Str ''MERCADO LIVRE''),
            (''Valor Total'', Num 120), (''Obs'', Str ''MERCADO LIVRE'')]]"
proof (intro conjI ballI)
  show "map fst (alinhar colunas (nova_linha colunas item)) = colunas"
    by (simp add: alinhar_def o_def)
  show "identificar_coluna_data colunas =
        (case find (\<lambda>nome. nome \<in> set colunas) possiveis_nomes of
           Some nome \<Rightarrow> nome | None \<Rightarrow> hd colunas)"
    using assms
    by (simp add: identificar_coluna_data_def primeiro_nome_find split: option.splits list.splits)
  show "montar_tabela [''Data Vencimento'', ''Descricao Completa'', ''Valor Total'', ''Obs'']
          [\<lparr>Data = ''05/03/2024'', Descricao = ''MERCADO LIVRE'', Valor = 120,
            Observacao = ''MERCADO LIVRE''\<rparr>]
        = [[(''Data Vencimento'', Str ''05/03/2024''), (''Descricao Completa'', Str ''MERCADO LIVRE''),
            (''Valor Total'', Num 120), (''Obs'', Str ''MERCADO LIVRE'')]]"
    by code_simp
qed (rule celula_nova_linha)

theorem projecao_da_linha_witness:
  "[''Data Vencimento'', ''Descricao Completa'', ''Valor Total'', ''Obs''] \<noteq> []
   \<and> identificar_coluna_data [''Data Vencimento'', ''Descricao Completa'', ''Valor Total'', ''Obs'']
       = ''Data Vencimento''
   \<and> celula ''Obs'' (alinhar [''Data Vencimento'', ''Descricao Completa'', ''Valor Total'', ''Obs'']
        (nova_linha [''Data Vencimento'', ''Descricao Completa'', ''Valor Total'', ''Obs'']
          \<lparr>Data = ''05/03/2024'', Descricao = ''MERCADO LIVRE'', Valor = 120,
            Observacao = ''MERCADO LIVRE''\<rparr>)) = Str ''MERCADO LIVRE''"
proof -
  let ?cols = "[''Data Vencimento'', ''Descricao Completa'', ''Valor Total'', ''Obs'']"
  let ?t = "\<lparr>Data = ''05/03/2024'', Descricao = ''MERCADO LIVRE'', Valor = 120,
            Observacao = ''MERCADO LIVRE''\<rparr>"
  have h: "?cols \<noteq> []" by simp
  have f: "find (\<lambda>nome. nome \<in> set ?cols) possiveis_nomes = Some ''Data Vencimento''"
    by code_simp
  have o: "primeira_coluna palavras_observacao ?cols = Some ''Obs''"
    unfolding primeira_coluna_def by code_simp
  from projecao_da_linha [OF h, of ?t] f o show ?thesis by simp
qed

subsection \<open>The sorting block\<close>

lemma to_datetime_cases: "to_datetime c = NA \<or> (\<exists>d. data_valida d \<and> to_datetime c = Dt d)"
  by (auto simp: to_datetime_def split: cell.splits option.splits dest: strptime_valida)

lemma to_datetime_Str_strftime: "data_valida d \<Longrightarrow> to_datetime (Str (strftime_dmY d)) = Dt d"
  by (simp add: to_datetime_def strptime_strftime)

lemma to_datetime_idem: "to_datetime (to_datetime c) = to_datetime c"
  using to_datetime_cases[of c] by (auto simp: to_datetime_def)

lemma to_datetime_NA [simp]: "to_datetime NA = NA" by (simp add: to_datetime_def)
lemma dt_strftime_NA [simp]: "dt_strftime NA = NA" by (simp add: dt_strftime_def)


lemma rerender_idem: "rerender (rerender c) = rerender c"
  using to_datetime_cases[of c]
  by (auto simp: rerender_def dt_strftime_def to_datetime_Str_strftime)

lemma map_of_atualizar: "map_of (atualizar col f l) col = map_option f (map_of l col)"
  by (induction l) (auto simp: atualizar_def)

lemma celula_atualizar: "f NA = NA \<Longrightarrow> celula col (atualizar col f l) = f (celula col l)"
  by (simp add: celula_def map_of_atualizar split: option.splits)

lemma atualizar_comp: "atualizar col f (atualizar col g l) = atualizar col (f \<circ> g) l"
  by (induction l) (auto simp: atualizar_def)

lemma atualizar_cong: "(\<And>c v. (c, v) \<in> set l \<Longrightarrow> c = col \<Longrightarrow> f v = g v) \<Longrightarrow> atualizar col f l = atualizar col g l"
  by (induction l) (auto simp: atualizar_def)

lemma argsort_ok_set: "argsort_ok qs \<Longrightarrow> set (qs ks) = {0..<length ks}"
  unfolding argsort_ok_def by (metis mset_eq_setD set_upt)

lemma argsort_ok_length: "argsort_ok qs \<Longrightarrow> length (qs ks) = length ks"
  unfolding argsort_ok_def by (metis size_mset length_upt diff_zero)

lemma argsort_ok_mset_map:
  assumes "argsort_ok qs" "length xs = length ks"
  shows "mset (map (\<lambda>i. xs ! i) (qs ks)) = mset xs"
proof -
  have "mset (map (\<lambda>i. xs ! i) (qs ks)) = image_mset (\<lambda>i. xs ! i) (mset (qs ks))" by simp
  also have "\<dots> = image_mset (\<lambda>i. xs ! i) (mset [0..<length xs])"
    using assms by (simp add: argsort_ok_def)
  also have "\<dots> = mset (map (\<lambda>i. xs ! i) [0..<length xs])" by simp
  also have "\<dots> = mset xs" by (simp add: map_nth)
  finally show ?thesis .
qed

lemma dropna_sort_values:
  assumes "argsort_ok qs"
  shows "dropna col (sort_values qs col df) =
     map (\<lambda>i. filter (\<lambda>l. celula col l \<noteq> NA) df ! i)
       (qs (map (chave col) (filter (\<lambda>l. celula col l \<noteq> NA) df)))"
proof -
  let ?ok = "filter (\<lambda>l. celula col l \<noteq> NA) df"
  let ?idx = "qs (map (chave col) ?ok)"
  have "\<forall>i \<in> set ?idx. i < length ?ok"
    using argsort_ok_set[OF assms, of "map (chave col) ?ok"] by simp
  then have "\<forall>i \<in> set ?idx. celula col (?ok ! i) \<noteq> NA"
    by (metis (mono_tags, lifting) mem_Collect_eq nth_mem set_filter)
  then have "filter (\<lambda>l. celula col l \<noteq> NA) (map (\<lambda>i. ?ok ! i) ?idx) = map (\<lambda>i. ?ok ! i) ?idx"
    by (simp add: filter_map o_def)
  then show ?thesis
    by (simp add: dropna_def sort_values_def Let_def)
qed

lemma to_datetime_rerender: "to_datetime (rerender c) = to_datetime c"
  using to_datetime_cases[of c]
  by (auto simp: rerender_def dt_strftime_def to_datetime_Str_strftime)

lemma rerender_NA [simp]: "rerender NA = NA" by (simp add: rerender_def)

lemma tem_data_atualizar: "tem_data col (atualizar col rerender l) = tem_data col l"
  by (simp add: tem_data_def celula_atualizar to_datetime_rerender)

lemma data_da_linha_atualizar: "data_da_linha col (atualizar col rerender l) = data_da_linha col l"
  by (simp add: data_da_linha_def celula_atualizar to_datetime_rerender)

lemma chave_to_datetime: "chave col (atualizar col to_datetime l) = data_da_linha col l"
  by (simp add: chave_def data_da_linha_def celula_atualizar)

lemma filter_to_datetime:
  "filter (\<lambda>l. celula col l \<noteq> NA) (map (atualizar col to_datetime) df)
   = map (atualizar col to_datetime) (filter (tem_data col) df)"
  by (induction df) (auto simp: celula_atualizar tem_data_def)

lemma ordenar_eq:
  assumes "argsort_ok qs" "col \<in> set cols"
  shows "ordenar_por_data qs col cols df =
     map (\<lambda>i. atualizar col rerender (filter (tem_data col) df ! i))
       (qs (map (data_da_linha col) (filter (tem_data col) df)))"
proof (cases "df = []")
  case True
  have "length (qs []) = 0" using argsort_ok_length[OF assms(1), of "[]"] by simp
  with True show ?thesis by (simp add: ordenar_por_data_def)
next
  case False
  let ?ok = "filter (tem_data col) df"
  let ?ks = "map (data_da_linha col) ?ok"
  have ks: "map (chave col \<circ> atualizar col to_datetime) ?ok = ?ks"
    by (simp add: chave_to_datetime o_def)
  have in_range: "\<forall>i \<in> set (qs ?ks). i < length ?ok"
    using argsort_ok_set[OF assms(1), of ?ks] by simp
  have "ordenar_por_data qs col cols df =
      map (atualizar col dt_strftime)
        (map (\<lambda>i. map (atualizar col to_datetime) ?ok ! i) (qs ?ks))"
    using False assms(2)
    by (simp add: ordenar_por_data_def dropna_sort_values[OF assms(1)] filter_to_datetime ks)
  also have "\<dots> = map (\<lambda>i. atualizar col rerender (?ok ! i)) (qs ?ks)"
  proof -
    have "rerender = dt_strftime \<circ> to_datetime" by (auto simp: rerender_def)
    then show ?thesis using in_range by (auto simp: atualizar_comp)
  qed
  finally show ?thesis .
qed

lemma ordenar_length:
  assumes "argsort_ok qs" "col \<in> set cols"
  shows "length (ordenar_por_data qs col cols df) = length (filter (tem_data col) df)"
  by (simp add: ordenar_eq[OF assms] argsort_ok_length[OF assms(1)])

lemma ordenar_mset:
  assumes "argsort_ok qs" "col \<in> set cols"
  shows "mset (ordenar_por_data qs col cols df)
     = mset (map (atualizar col rerender) (filter (tem_data col) df))"
proof -
  let ?ok = "filter (tem_data col) df"
  let ?ks = "map (data_da_linha col) ?ok"
  have in_range: "\<forall>i \<in> set (qs ?ks). i < length ?ok"
    using argsort_ok_set[OF assms(1), of ?ks] by simp
  have "ordenar_por_data qs col cols df
      = map (\<lambda>i. map (atualizar col rerender) ?ok ! i) (qs ?ks)"
    using in_range by (simp add: ordenar_eq[OF assms])
  then show ?thesis
    using argsort_ok_mset_map[OF assms(1), of "map (atualizar col rerender) ?ok" ?ks] by simp
qed

lemma ordenar_keys:
  assumes "argsort_ok qs" "col \<in> set cols"
  shows "map (data_da_linha col) (ordenar_por_data qs col cols df)
     = map (\<lambda>i. map (data_da_linha col) (filter (tem_data col) df) ! i)
         (qs (map (data_da_linha col) (filter (tem_data col) df)))"
proof -
  let ?ok = "filter (tem_data col) df"
  let ?ks = "map (data_da_linha col) ?ok"
  have in_range: "\<forall>i \<in> set (qs ?ks). i < length ?ok"
    using argsort_ok_set[OF assms(1), of ?ks] by simp
  then show ?thesis
    by (simp add: ordenar_eq[OF assms] data_da_linha_atualizar o_def)
qed

lemma ordenar_sorted:
  assumes "argsort_ok qs" "col \<in> set cols"
  shows "sorted (map (data_da_linha col) (ordenar_por_data qs col cols df))"
  using assms(1) by (simp add: ordenar_keys[OF assms] argsort_ok_def)

lemma ordenar_tem_data:
  assumes "argsort_ok qs" "col \<in> set cols" "l \<in> set (ordenar_por_data qs col cols df)"
  shows "tem_data col l"
proof -
  from assms(3) have "l \<in># mset (ordenar_por_data qs col cols df)" by simp
  then have "l \<in> set (map (atualizar col rerender) (filter (tem_data col) df))"
    unfolding ordenar_mset[OF assms(1,2)] by simp
  then show ?thesis by (auto simp: tem_data_atualizar)
qed


lemma atualizar_rerender_idem:
  "atualizar col rerender (atualizar col rerender l) = atualizar col rerender l"
  by (simp add: atualizar_comp o_def rerender_idem)

lemma argsort_estavel_ok: "argsort_ok argsort_estavel"
  unfolding argsort_ok_def argsort_estavel_def
  by (auto simp: sorted_sort_key)



lemma length_filter_eq_iff: "length (filter P xs) = length xs \<longleftrightarrow> (\<forall>x \<in> set xs. P x)"
  by (metis filter_id_conv length_filter_less less_irrefl filter_True)

text \<open>
  Claim C5, as amended. The final table has as many rows as rows of the assembled table
  whose cell in the date column parses under \<open>%d/%m/%Y\<close>; so it has at most as many
  rows as there are transactions, with equality exactly when every such cell parses.
  When the date column is not also the column chosen for description, value or note,
  that is exactly when the date of every transaction parses. (Otherwise the later
  assignment replaces the date in that column: see the counterexample.)
\<close>

theorem tabela_final_contagem:
  assumes "argsort_ok argsort" "colunas \<noteq> []"
  shows "length (tabela_final argsort colunas dados)
           = length (filter (tem_data (identificar_coluna_data colunas)) (montar_tabela colunas dados))
    \<and> length (tabela_final argsort colunas dados) \<le> length dados
    \<and> (length (tabela_final argsort colunas dados) = length dados \<longleftrightarrow>
         (\<forall>l \<in> set (montar_tabela colunas dados). tem_data (identificar_coluna_data colunas) l))
    \<and> (primeira_coluna palavras_descricao colunas \<noteq> Some (identificar_coluna_data colunas)
        \<and> primeira_coluna palavras_valor colunas \<noteq> Some (identificar_coluna_data colunas)
        \<and> primeira_coluna palavras_observacao colunas \<noteq> Some (identificar_coluna_data colunas)
        \<longrightarrow> (length (tabela_final argsort colunas dados) = length dados \<longleftrightarrow>
              (\<forall>item \<in> set dados. strptime_dmY (Data item) \<noteq> None)))"
proof -
  let ?col = "identificar_coluna_data colunas"
  let ?df = "montar_tabela colunas dados"
  have col: "?col \<in> set colunas" by (rule identificar_in[OF assms(2)])
  have len: "length (tabela_final argsort colunas dados) = length (filter (tem_data ?col) ?df)"
    unfolding tabela_final_def by (rule ordenar_length[OF assms(1) col])
  have n: "length ?df = length dados" by (simp add: montar_tabela_def)
  have le: "length (tabela_final argsort colunas dados) \<le> length dados"
    unfolding len n[symmetric] by (rule length_filter_le)
  have eq: "length (tabela_final argsort colunas dados) = length dados \<longleftrightarrow>
         (\<forall>l \<in> set ?df. tem_data ?col l)"
    unfolding len n[symmetric] by (rule length_filter_eq_iff)
  have "(\<forall>l \<in> set ?df. tem_data ?col l) \<longleftrightarrow> (\<forall>item \<in> set dados. strptime_dmY (Data item) \<noteq> None)"
    if "primeira_coluna palavras_descricao colunas \<noteq> Some ?col"
      "primeira_coluna palavras_valor colunas \<noteq> Some ?col"
      "primeira_coluna palavras_observacao colunas \<noteq> Some ?col"
  proof -
    have "tem_data ?col (alinhar colunas (nova_linha colunas item)) \<longleftrightarrow> strptime_dmY (Data item) \<noteq> None"
      for item
      using that by (simp add: tem_data_def celula_nova_linha[OF col] to_datetime_def split: option.splits)
    then show ?thesis by (simp add: montar_tabela_def)
  qed
  with len le eq show ?thesis by blast
qed

theorem tabela_final_contagem_witness:
  "argsort_ok argsort_estavel \<and> [''Data'', ''Descricao'', ''Valor''] \<noteq> []
   \<and> length (tabela_final argsort_estavel [''Data'', ''Descricao'', ''Valor'']
        [\<lparr>Data = ''10/01/2024'', Descricao = ''LOJA'', Valor = 10, Observacao = ''LOJA''\<rparr>,
         \<lparr>Data = ''31/02/2024'', Descricao = ''BAR'', Valor = 5, Observacao = ''BAR''\<rparr>]) = 1"
proof -
  let ?cols = "[''Data'', ''Descricao'', ''Valor'']"
  let ?dados = "[\<lparr>Data = ''10/01/2024'', Descricao = ''LOJA'', Valor = 10, Observacao = ''LOJA''\<rparr>,
         \<lparr>Data = ''31/02/2024'', Descricao = ''BAR'', Valor = 5, Observacao = ''BAR''\<rparr>]"
  have h: "?cols \<noteq> []" by simp
  have c: "length (filter (tem_data (identificar_coluna_data ?cols)) (montar_tabela ?cols ?dados)) = 1"
    by code_simp
  from tabela_final_contagem [OF argsort_estavel_ok h, of ?dados] c argsort_estavel_ok
  show ?thesis by simp
qed

theorem tabela_final_contagem_counterexample:
  "strptime_dmY ''01/03/2024'' = Some (2024, 3, 1)
   \<and> tabela_final argsort_estavel [''Descricao'', ''Valor'']
        [\<lparr>Data = ''01/03/2024'', Descricao = ''UBER TRIP'', Valor = 459 / 10,
          Observacao = ''UBER TRIP''\<rparr>] = []"
  by code_simp

lemma ordenar_cells:
  assumes "argsort_ok qs" "col \<in> set cols" "l \<in> set (ordenar_por_data qs col cols df)"
  shows "\<exists>l' d. l' \<in> set df \<and> l = atualizar col rerender l' \<and> data_valida d
           \<and> to_datetime (celula col l') = Dt d \<and> celula col l = Str (strftime_dmY d)"
proof -
  from assms(3) have "l \<in># mset (ordenar_por_data qs col cols df)" by simp
  then have "l \<in> set (map (atualizar col rerender) (filter (tem_data col) df))"
    unfolding ordenar_mset[OF assms(1,2)] by simp
  then obtain l' where l': "l' \<in> set df" "tem_data col l'" "l = atualizar col rerender l'" by auto
  from l'(2) obtain d where d: "data_valida d" "to_datetime (celula col l') = Dt d"
    using to_datetime_cases[of "celula col l'"] by (auto simp: tem_data_def)
  have "celula col l = Str (strftime_dmY d)"
    by (simp add: l'(3) celula_atualizar rerender_def d(2) dt_strftime_def)
  with l' d show ?thesis by blast
qed




lemma ordenar_fixed_rows:
  assumes "argsort_ok qs" "col \<in> set cols" "l \<in> set (ordenar_por_data qs col cols df)"
  shows "atualizar col rerender l = l" "tem_data col l"
proof -
  from ordenar_cells[OF assms] obtain l' where "l = atualizar col rerender l'" by blast
  then show "atualizar col rerender l = l" by (simp add: atualizar_rerender_idem)
  show "tem_data col l" by (rule ordenar_tem_data[OF assms])
qed





text \<open>
  With a stable index sort (pandas' \<open>kind='stable'\<close>, which the source does not request)
  the sorting block is the stable sort of the rows that have a date: rows of equal date
  keep their input order, and a second pass changes nothing.
\<close>

lemma insort_key_map_comp:
  "insort_key f (g x) (map g ys) = map g (insort_key (\<lambda>a. f (g a)) x ys)"
  by (induction ys) simp_all

lemma sort_key_map_comp: "sort_key f (map g xs) = map g (sort_key (\<lambda>a. f (g a)) xs)"
  by (induction xs) (simp_all add: insort_key_map_comp)

lemma insort_key_cong_set:
  assumes "f a = g a" "\<forall>x \<in> set ys. f x = g x"
  shows "insort_key f a ys = insort_key g a ys"
  using assms(2)
proof (induction ys)
  case Nil
  then show ?case by simp
next
  case (Cons y ys)
  then have "f y = g y" "insort_key f a ys = insort_key g a ys" by simp_all
  then show ?case using assms(1) by simp
qed

lemma sort_key_cong_set:
  assumes "\<forall>x \<in> set xs. f x = g x"
  shows "sort_key f xs = sort_key g xs"
  using assms
proof (induction xs)
  case Nil
  then show ?case by simp
next
  case (Cons x xs)
  then have ih: "sort_key f xs = sort_key g xs" and fx: "f x = g x"
    and rest: "\<forall>y \<in> set (sort_key g xs). f y = g y" by simp_all
  show ?case using insort_key_cong_set[OF fx rest] ih by simp
qed

lemma ordenar_estavel:
  assumes "col \<in> set cols"
  shows "ordenar_por_data argsort_estavel col cols df =
     map (atualizar col rerender) (sort_key (data_da_linha col) (filter (tem_data col) df))"
proof -
  let ?ok = "filter (tem_data col) df"
  let ?n = "length ?ok"
  have k: "sort_key (\<lambda>i. map (data_da_linha col) ?ok ! i) [0..<?n]
      = sort_key (\<lambda>i. data_da_linha col (?ok ! i)) [0..<?n]"
    by (rule sort_key_cong_set) simp
  have "ordenar_por_data argsort_estavel col cols df =
      map (\<lambda>i. atualizar col rerender (?ok ! i))
        (sort_key (\<lambda>i. map (data_da_linha col) ?ok ! i) [0..<?n])"
    unfolding ordenar_eq[OF argsort_estavel_ok assms] argsort_estavel_def by simp
  also have "\<dots> = map (atualizar col rerender)
        (map (\<lambda>i. ?ok ! i) (sort_key (\<lambda>i. data_da_linha col (?ok ! i)) [0..<?n]))"
    unfolding k by (simp add: o_def)
  also have "map (\<lambda>i. ?ok ! i) (sort_key (\<lambda>i. data_da_linha col (?ok ! i)) [0..<?n])
      = sort_key (data_da_linha col) (map (\<lambda>i. ?ok ! i) [0..<?n])"
    by (rule sort_key_map_comp[symmetric])
  also have "map (\<lambda>i. ?ok ! i) [0..<?n] = ?ok" by (rule map_nth)
  finally show ?thesis .
qed

lemma ordenar_estavel_empates:
  assumes "col \<in> set cols"
  shows "filter (\<lambda>l. data_da_linha col l = d) (ordenar_por_data argsort_estavel col cols df)
     = map (atualizar col rerender)
         (filter (\<lambda>l. data_da_linha col l = d) (filter (tem_data col) df))"
proof -
  have "filter (\<lambda>l. data_da_linha col l = d) (ordenar_por_data argsort_estavel col cols df)
      = map (atualizar col rerender) (filter (\<lambda>l. data_da_linha col l = d)
          (sort_key (data_da_linha col) (filter (tem_data col) df)))"
    unfolding ordenar_estavel[OF assms] filter_map
    by (simp add: o_def data_da_linha_atualizar)
  then show ?thesis by (simp only: sort_key_stable)
qed

lemma ordenar_estavel_idempotente:
  assumes "col \<in> set cols"
  shows "ordenar_por_data argsort_estavel col cols (ordenar_por_data argsort_estavel col cols df)
     = ordenar_por_data argsort_estavel col cols df"
proof -
  let ?out = "ordenar_por_data argsort_estavel col cols df"
  have fx: "\<forall>l \<in> set ?out. atualizar col rerender l = l \<and> tem_data col l"
    using ordenar_fixed_rows[OF argsort_estavel_ok assms] by blast
  then have f: "filter (tem_data col) ?out = ?out" by simp
  from fx have m: "map (atualizar col rerender) ?out = ?out" by (simp add: map_idI)
  have "sorted (map (data_da_linha col) ?out)" by (rule ordenar_sorted[OF argsort_estavel_ok assms])
  then have "sort_key (data_da_linha col) ?out = ?out" by (rule sort_key_id_if_sorted)
  then show ?thesis by (simp only: ordenar_estavel[OF assms, of ?out] f m)
qed

end
